theory Spec2Isabelle
  imports Main
begin

section \<open>Python values used by \<open>get_tcia.py\<close>\<close>

text \<open>
  Strings are byte lists. Exceptions are values of \<open>py_error\<close>; a computation that may
  raise returns \<open>py_error + 'a\<close>, with \<open>Inl\<close> for the exception.
\<close>

datatype py_error =
    FileNotFoundError | FileExistsError | NotADirectoryError | IsADirectoryError
  | SameFileError | KeyError | IndexError | TypeError | AttributeError
  | ValueError | JSONDecodeError | ConnectionError | HTTPError | ChunkedEncodingError

text \<open>\<open>str.isspace\<close> on the ASCII range: tab, LF, VT, FF, CR, FS, GS, RS, US and space.\<close>

definition is_space :: "char \<Rightarrow> bool" where
  "is_space c = (c = CHR 0x09 \<or> c = CHR 0x0A \<or> c = CHR 0x0B \<or> c = CHR 0x0C \<or> c = CHR 0x0D
     \<or> c = CHR 0x1C \<or> c = CHR 0x1D \<or> c = CHR 0x1E \<or> c = CHR 0x1F \<or> c = CHR 0x20)"

text \<open>\<open>s.strip()\<close>: leading and trailing whitespace removed.\<close>

definition strip :: "string \<Rightarrow> string" where
  "strip s = rev (dropWhile is_space (rev (dropWhile is_space s)))"

text \<open>\<open>s.partition(sep)\<close> for a one-character separator: the text before the first
  occurrence, the separator (empty when it does not occur), the text after it.\<close>

definition partition_str :: "char \<Rightarrow> string \<Rightarrow> string \<times> string \<times> string" where
  "partition_str sep s =
     (takeWhile (\<lambda>c. c \<noteq> sep) s,
      (if sep \<in> set s then [sep] else []),
      drop 1 (dropWhile (\<lambda>c. c \<noteq> sep) s))"

text \<open>
  Iterating over a file opened in text mode: universal newlines turn CR LF and a lone CR
  into LF, and each line is yielded with its terminating LF (the last line may lack one).
\<close>

fun universal_newlines :: "string \<Rightarrow> string" where
  "universal_newlines [] = []"
| "universal_newlines [c] = [if c = CHR 0x0D then CHR 0x0A else c]"
| "universal_newlines (c # d # cs) =
     (if c = CHR 0x0D \<and> d = CHR 0x0A then CHR 0x0A # universal_newlines cs
      else if c = CHR 0x0D then CHR 0x0A # universal_newlines (d # cs)
      else c # universal_newlines (d # cs))"

fun split_lines :: "string \<Rightarrow> string \<Rightarrow> string list" where
  "split_lines acc [] = (if acc = [] then [] else [acc])"
| "split_lines acc (c # cs) =
     (if c = CHR 0x0A then (acc @ [c]) # split_lines [] cs
      else split_lines (acc @ [c]) cs)"

definition file_lines :: "string \<Rightarrow> string list" where
  "file_lines text = split_lines [] (universal_newlines text)"

section \<open>The manifest parser\<close>

text \<open>
  \<open>manifest_data\<close> is a dict from key to list of values; \<open>current_key\<close> starts as
  \<open>None\<close>. \<open>parse_line\<close> is the body of the loop of \<open>parse_manifest\<close>: the test
  \<open>if value\<close> is on the untrimmed remainder after the first \<open>=\<close>, the test
  \<open>current_key and line\<close> fails for \<open>None\<close> and for the empty string, and
  \<open>manifest_data[current_key]\<close> raises \<open>KeyError\<close> on a missing key.
\<close>

type_synonym manifest = "string \<rightharpoonup> string list"

type_synonym parser_state = "manifest \<times> string option"

definition truthy_key :: "string option \<Rightarrow> bool" where
  "truthy_key k = (case k of None \<Rightarrow> False | Some s \<Rightarrow> s \<noteq> [])"

definition parse_line :: "string \<Rightarrow> parser_state \<Rightarrow> py_error + parser_state" where
  "parse_line raw st =
     (let manifest_data = fst st; current_key = snd st; line = strip raw in
      if CHR ''='' \<in> set line then
        (let (k, sep, val) = partition_str CHR ''='' line;
             current_key = strip k
         in Inr (manifest_data(current_key \<mapsto> (if val \<noteq> [] then [strip val] else [])),
                 Some current_key))
      else if truthy_key current_key \<and> line \<noteq> [] then
        (case current_key of
           None \<Rightarrow> Inr st
         | Some k \<Rightarrow>
             (case manifest_data k of
                None \<Rightarrow> Inl KeyError
              | Some vs \<Rightarrow> Inr (manifest_data(k \<mapsto> vs @ [line]), current_key)))
      else Inr st)"

fun parse_lines :: "string list \<Rightarrow> parser_state \<Rightarrow> py_error + parser_state" where
  "parse_lines [] st = Inr st"
| "parse_lines (l # ls) st =
     (case parse_line l st of Inl e \<Rightarrow> Inl e | Inr st' \<Rightarrow> parse_lines ls st')"

definition parse_manifest_lines :: "string list \<Rightarrow> py_error + manifest" where
  "parse_manifest_lines ls =
     (case parse_lines ls (Map.empty, None) of Inl e \<Rightarrow> Inl e | Inr st \<Rightarrow> Inr (fst st))"

definition parse_manifest_text :: "string \<Rightarrow> py_error + manifest" where
  "parse_manifest_text text = parse_manifest_lines (file_lines text)"


section \<open>Paths and the file system\<close>

text \<open>
  A \<open>pathlib.Path\<close> is the list of its components from the root. \<open>joinpath\<close> is the
  operator \<open>/\<close> with a string on the right: an operand that starts with a slash replaces
  the left path, empty and \<open>.\<close> components are dropped. The file system maps a path to
  a directory or to a regular file with its content; the root is always a directory.
  Symbolic links and \<open>..\<close> components are not modelled.
\<close>

type_synonym path = "string list"

definition path_name :: "path \<Rightarrow> string" where
  "path_name p = (case rev p of [] \<Rightarrow> [] | n # _ \<Rightarrow> n)"

fun split_on :: "char \<Rightarrow> string \<Rightarrow> string \<Rightarrow> string list" where
  "split_on sep acc [] = [acc]"
| "split_on sep acc (c # cs) =
     (if c = sep then acc # split_on sep [] cs else split_on sep (acc @ [c]) cs)"

definition path_parts :: "string \<Rightarrow> string list" where
  "path_parts s = filter (\<lambda>part. part \<noteq> [] \<and> part \<noteq> ''.'') (split_on CHR ''/'' [] s)"

definition joinpath :: "path \<Rightarrow> string \<Rightarrow> path" where
  "joinpath p s =
     (case s of
        [] \<Rightarrow> p
      | c # _ \<Rightarrow> if c = CHR ''/'' then path_parts s else p @ path_parts s)"

datatype node = Dir | File string

type_synonym filesystem = "path \<Rightarrow> node option"

definition lookup :: "filesystem \<Rightarrow> path \<Rightarrow> node option" where
  "lookup disk p = (if p = [] then Some Dir else disk p)"

definition exists_path :: "filesystem \<Rightarrow> path \<Rightarrow> bool" where
  "exists_path disk p = (lookup disk p \<noteq> None)"

definition is_file :: "filesystem \<Rightarrow> path \<Rightarrow> bool" where
  "is_file disk p = (case lookup disk p of Some (File c) \<Rightarrow> True | _ \<Rightarrow> False)"

definition is_dir :: "filesystem \<Rightarrow> path \<Rightarrow> bool" where
  "is_dir disk p = (lookup disk p = Some Dir)"

text \<open>\<open>os.mkdir\<close>: the parent must be a directory and the path must not exist.\<close>

definition os_mkdir :: "path \<Rightarrow> filesystem \<Rightarrow> (py_error + unit) \<times> filesystem" where
  "os_mkdir p disk =
     (if p = [] then (Inl FileExistsError, disk)
      else case lookup disk (butlast p) of
             None \<Rightarrow> (Inl FileNotFoundError, disk)
           | Some (File c) \<Rightarrow> (Inl NotADirectoryError, disk)
           | Some Dir \<Rightarrow>
               if lookup disk p \<noteq> None then (Inl FileExistsError, disk)
               else (Inr (), disk(p \<mapsto> Dir)))"

text \<open>
  \<open>Path.mkdir(parents=False, exist_ok=True)\<close> and \<open>Path.mkdir(parents=True, exist_ok=True)\<close>,
  after pathlib: a \<open>FileNotFoundError\<close> of \<open>os.mkdir\<close> creates the parents first and tries
  again without \<open>parents\<close>; any other \<open>OSError\<close> is swallowed when the path is a directory.
\<close>

definition mkdir_exist_ok :: "path \<Rightarrow> filesystem \<Rightarrow> (py_error + unit) \<times> filesystem" where
  "mkdir_exist_ok p disk =
     (case os_mkdir p disk of
        (Inr u, disk') \<Rightarrow> (Inr u, disk')
      | (Inl e, disk') \<Rightarrow>
          if e \<noteq> FileNotFoundError \<and> is_dir disk' p then (Inr (), disk') else (Inl e, disk'))"

function mkdir :: "path \<Rightarrow> filesystem \<Rightarrow> (py_error + unit) \<times> filesystem" where
  "mkdir p disk =
     (case os_mkdir p disk of
        (Inr u, disk') \<Rightarrow> (Inr u, disk')
      | (Inl e, disk') \<Rightarrow>
          if e = FileNotFoundError then
            (if butlast p = p then (Inl e, disk')
             else case mkdir (butlast p) disk' of
                    (Inl e', disk'') \<Rightarrow> (Inl e', disk'')
                  | (Inr u, disk'') \<Rightarrow> mkdir_exist_ok p disk'')
          else if is_dir disk' p then (Inr (), disk') else (Inl e, disk'))"
  by pat_completeness auto
termination
  by (relation "measure (\<lambda>(p, disk). length p)") (auto simp: butlast_conv_take)

text \<open>\<open>open(p, "wb")\<close> creates or truncates the file; the parent must be a directory.\<close>

definition open_wb :: "path \<Rightarrow> filesystem \<Rightarrow> (py_error + unit) \<times> filesystem" where
  "open_wb p disk =
     (if p = [] then (Inl IsADirectoryError, disk)
      else case lookup disk (butlast p) of
             None \<Rightarrow> (Inl FileNotFoundError, disk)
           | Some (File c) \<Rightarrow> (Inl NotADirectoryError, disk)
           | Some Dir \<Rightarrow>
               (case lookup disk p of
                  Some Dir \<Rightarrow> (Inl IsADirectoryError, disk)
                | _ \<Rightarrow> (Inr (), disk(p \<mapsto> File []))))"

text \<open>
  \<open>shutil.copy(src, dst)\<close>: a directory \<open>dst\<close> stands for \<open>dst/basename(src)\<close>; copying a
  file onto itself raises \<open>SameFileError\<close>.
\<close>

definition shutil_copy :: "path \<Rightarrow> path \<Rightarrow> filesystem \<Rightarrow> (py_error + unit) \<times> filesystem" where
  "shutil_copy src dst disk =
     (let dst' = (if is_dir disk dst then dst @ [path_name src] else dst) in
      if exists_path disk src \<and> src = dst' then (Inl SameFileError, disk)
      else case lookup disk src of
             None \<Rightarrow> (Inl FileNotFoundError, disk)
           | Some Dir \<Rightarrow> (Inl IsADirectoryError, disk)
           | Some (File content) \<Rightarrow>
               (case open_wb dst' disk of
                  (Inl e, disk') \<Rightarrow> (Inl e, disk')
                | (Inr u, disk') \<Rightarrow> (Inr (), disk'(dst' \<mapsto> File content))))"

section \<open>The remote service\<close>

text \<open>
  A reply to \<open>requests.get\<close>: no connection (the call raises), or a response with its
  status code, its \<open>metadata\<close> header (absent, not JSON, or JSON text with the value it
  decodes to), the chunks \<open>iter_content\<close> yields, and whether the stream breaks after them.
\<close>

datatype json =
    JNull | JBool bool | JNum string | JStr string
  | JArr "json list" | JObj "(string \<times> json) list"

datatype metadata_header = NoHeader | NotJson | Json json

datatype reply =
    Unreachable
  | Reply (status: nat) (metadata: metadata_header) (chunks: "string list") (stream_breaks: bool)

text \<open>\<open>json.loads(response.headers.get("metadata", "{}"))\<close>\<close>

definition json_loads_metadata :: "metadata_header \<Rightarrow> py_error + json" where
  "json_loads_metadata h =
     (case h of NoHeader \<Rightarrow> Inr (JObj []) | NotJson \<Rightarrow> Inl JSONDecodeError | Json j \<Rightarrow> Inr j)"

text \<open>\<open>d.get(key, default)\<close>: only a dict has the method.\<close>

definition dict_get :: "json \<Rightarrow> string \<Rightarrow> json \<Rightarrow> py_error + json" where
  "dict_get d key dflt =
     (case d of
        JObj items \<Rightarrow> Inr (case map_of items key of None \<Rightarrow> dflt | Some v \<Rightarrow> v)
      | _ \<Rightarrow> Inl AttributeError)"

text \<open>\<open>v[0]\<close>: the first element of a list, the first character of a string, a missing key
  of a dict (JSON keys are strings), a \<open>TypeError\<close> for the other values.\<close>

definition subscript0 :: "json \<Rightarrow> py_error + json" where
  "subscript0 v =
     (case v of
        JArr xs \<Rightarrow> (case xs of [] \<Rightarrow> Inl IndexError | x # _ \<Rightarrow> Inr x)
      | JStr cs \<Rightarrow> (case cs of [] \<Rightarrow> Inl IndexError | c # _ \<Rightarrow> Inr (JStr [c]))
      | JObj items \<Rightarrow> Inl KeyError
      | _ \<Rightarrow> Inl TypeError)"

text \<open>\<open>metadata.get("Result", {}).get("Type", [""])[0]\<close>\<close>

definition filetype_of :: "metadata_header \<Rightarrow> py_error + json" where
  "filetype_of h =
     (case json_loads_metadata h of
        Inl e \<Rightarrow> Inl e
      | Inr md \<Rightarrow>
          (case dict_get md ''Result'' (JObj []) of
             Inl e \<Rightarrow> Inl e
           | Inr result \<Rightarrow>
               (case dict_get result ''Type'' (JArr [JStr []]) of
                  Inl e \<Rightarrow> Inl e
                | Inr ty \<Rightarrow> subscript0 ty)))"

section \<open>The world: file system, remote service, observable events\<close>

datatype message =
    ErrorDownloading string py_error
  | FailedAfter string int
  | Retrying int int
  | ParsingManifest path
  | DownloadingSeries nat path
  | Done

datatype event = Request string | Sleep nat | Print message

text \<open>
  \<open>remote w sid k\<close> is the reply to the request number \<open>k\<close> (from 0) for the series
  \<open>sid\<close>; \<open>trace\<close> is what the run has done so far: requests, sleeps, printed lines.
\<close>

record world =
  files :: filesystem
  remote :: "string \<Rightarrow> nat \<Rightarrow> reply"
  trace :: "event list"

definition emit :: "event \<Rightarrow> world \<Rightarrow> world" where
  "emit e w = w\<lparr>trace := trace w @ [e]\<rparr>"

definition requests_get :: "string \<Rightarrow> world \<Rightarrow> reply \<times> world" where
  "requests_get series_id w =
     (remote w series_id (count_list (trace w) (Request series_id)), emit (Request series_id) w)"

section \<open>The series fetcher\<close>

text \<open>
  \<open>attempt\<close> is the body of the \<open>try\<close> of \<open>download_series\<close>: \<open>Inr\<close> is its
  \<open>return dest_file\<close>, \<open>Inl\<close> the exception it leaves with. The file is created when it
  is opened; only the non-empty chunks are written.
\<close>

definition attempt :: "string \<Rightarrow> path \<Rightarrow> world \<Rightarrow> (py_error + path) \<times> world" where
  "attempt series_id dest_file w =
     (if exists_path (files w) dest_file then (Inr dest_file, w)
      else
        (case requests_get series_id w of
           (Unreachable, w1) \<Rightarrow> (Inl ConnectionError, w1)
         | (Reply code header body broken, w1) \<Rightarrow>
             if 400 \<le> code \<and> code < 600 then (Inl HTTPError, w1)
             else
               (case filetype_of header of
                  Inl e \<Rightarrow> (Inl e, w1)
                | Inr filetype \<Rightarrow>
                    if filetype \<noteq> JStr ''ZIP'' then (Inl ValueError, w1)
                    else
                      (case open_wb dest_file (files w1) of
                         (Inl e, disk) \<Rightarrow> (Inl e, w1\<lparr>files := disk\<rparr>)
                       | (Inr u, disk) \<Rightarrow>
                           (let written = concat (filter (\<lambda>chunk. chunk \<noteq> []) body);
                                w2 = w1\<lparr>files := disk(dest_file \<mapsto> File written)\<rparr>
                            in if broken then (Inl ChunkedEncodingError, w2)
                               else (Inr dest_file, w2))))))"

text \<open>
  The \<open>while\<close> loop of \<open>download_series\<close>, from a value of \<open>retry_count\<close>; the
  \<open>except\<close> branch prints, counts the attempt, and either gives up or sleeps a second.
\<close>

function download_loop ::
  "string \<Rightarrow> path \<Rightarrow> int \<Rightarrow> int \<Rightarrow> world \<Rightarrow> (py_error + path) \<times> world" where
  "download_loop series_id dest_file max_retries retry_count w =
     (if retry_count \<le> max_retries then
        (case attempt series_id dest_file w of
           (Inr p, w') \<Rightarrow> (Inr p, w')
         | (Inl e, w') \<Rightarrow>
             (let w1 = emit (Print (ErrorDownloading series_id e)) w';
                  retry_count' = retry_count + 1
              in if retry_count' > max_retries
                 then (Inr dest_file, emit (Print (FailedAfter series_id max_retries)) w1)
                 else download_loop series_id dest_file max_retries retry_count'
                        (emit (Sleep 1) (emit (Print (Retrying retry_count' max_retries)) w1))))
      else (Inr dest_file, w))"
  by pat_completeness auto
termination
  by (relation "measure (\<lambda>(s, d, m, r, w). nat (m + 1 - r))") auto

definition download_series :: "string \<Rightarrow> path \<Rightarrow> int \<Rightarrow> world \<Rightarrow> (py_error + path) \<times> world" where
  "download_series series_id dest_file max_retries w =
     download_loop series_id dest_file max_retries 0 w"

section \<open>The orchestrator\<close>

text \<open>\<open>parse_manifest(file_path)\<close>: \<open>file_path.open()\<close>, then the loop over the lines.\<close>

definition parse_manifest :: "path \<Rightarrow> filesystem \<Rightarrow> py_error + manifest" where
  "parse_manifest file_path disk =
     (case lookup disk file_path of
        None \<Rightarrow> Inl FileNotFoundError
      | Some Dir \<Rightarrow> Inl IsADirectoryError
      | Some (File content) \<Rightarrow> parse_manifest_text content)"

text \<open>
  \<open>int(s)\<close> on ASCII text: surrounding whitespace, an optional sign, decimal digits
  with single underscores between them; anything else is a \<open>ValueError\<close>.
\<close>

definition digit_of :: "char \<Rightarrow> nat option" where
  "digit_of c =
     (let n = (of_char c :: nat) in if 48 \<le> n \<and> n \<le> 57 then Some (n - 48) else None)"

fun digits_value :: "bool \<Rightarrow> nat \<Rightarrow> string \<Rightarrow> nat option" where
  "digits_value after_digit acc [] = (if after_digit then Some acc else None)"
| "digits_value after_digit acc (c # cs) =
     (case digit_of c of
        Some d \<Rightarrow> digits_value True (10 * acc + d) cs
      | None \<Rightarrow> if c = CHR ''_'' \<and> after_digit then digits_value False acc cs else None)"

definition py_int :: "string \<Rightarrow> py_error + int" where
  "py_int s =
     (case strip s of
        [] \<Rightarrow> Inl ValueError
      | c # cs \<Rightarrow>
          (case (if c = CHR ''-'' \<or> c = CHR ''+'' then digits_value False 0 cs
                 else digits_value False 0 (c # cs)) of
             None \<Rightarrow> Inl ValueError
           | Some n \<Rightarrow> Inr (if c = CHR ''-'' then - int n else int n)))"

text \<open>
  \<open>int(manifest_data.get('noOfrRetry', 0)[0])\<close>: the default of \<open>get\<close> is the integer
  \<open>0\<close>, and subscripting an integer raises \<open>TypeError\<close>.
\<close>

definition no_of_retries_of :: "manifest \<Rightarrow> py_error + int" where
  "no_of_retries_of manifest_data =
     (case manifest_data ''noOfrRetry'' of
        None \<Rightarrow> Inl TypeError
      | Some vs \<Rightarrow> (case vs of [] \<Rightarrow> Inl IndexError | v # _ \<Rightarrow> py_int v))"

text \<open>\<open>manifest_data.get(key, [])\<close>\<close>

definition get_list :: "manifest \<Rightarrow> string \<Rightarrow> string list" where
  "get_list manifest_data key = (case manifest_data key of None \<Rightarrow> [] | Some vs \<Rightarrow> vs)"

text \<open>
  The jobs submitted to the pool, one \<open>download_series\<close> call per series identifier of
  the list. The workers share nothing but the file system, so the pool is modelled by the
  jobs running one after the other, in the order they are submitted.
\<close>

fun run_jobs :: "path \<Rightarrow> int \<Rightarrow> string list \<Rightarrow> world \<Rightarrow> (py_error + path) list \<times> world" where
  "run_jobs destination_folder no_of_retries [] w = ([], w)"
| "run_jobs destination_folder no_of_retries (series_id # rest) w =
     (case download_series series_id (joinpath destination_folder (series_id @ ''.zip''))
             no_of_retries w of
        (r, w') \<Rightarrow>
          (case run_jobs destination_folder no_of_retries rest w' of
             (rs, w'') \<Rightarrow> (r # rs, w'')))"

text \<open>\<open>future.result()\<close> for each future: an exception of a job is raised again.\<close>

fun collect_results :: "(py_error + path) list \<Rightarrow> py_error + unit" where
  "collect_results [] = Inr ()"
| "collect_results (Inl e # rs) = Inl e"
| "collect_results (Inr p # rs) = collect_results rs"

definition download_from_manifest ::
  "path \<Rightarrow> path \<Rightarrow> int \<Rightarrow> world \<Rightarrow> (py_error + unit) \<times> world" where
  "download_from_manifest manifest_path output_base_path njobs w =
     (let destination_folder = joinpath output_base_path (path_name manifest_path) in
      case mkdir destination_folder (files w) of
        (Inl e, disk) \<Rightarrow> (Inl e, w\<lparr>files := disk\<rparr>)
      | (Inr u, disk) \<Rightarrow>
          if \<not> is_file disk manifest_path then (Inl ValueError, w\<lparr>files := disk\<rparr>)
          else
            (case shutil_copy manifest_path destination_folder disk of
               (Inl e, disk') \<Rightarrow> (Inl e, w\<lparr>files := disk'\<rparr>)
             | (Inr u, disk') \<Rightarrow>
                 (let w1 = emit (Print (ParsingManifest manifest_path)) (w\<lparr>files := disk'\<rparr>) in
                  case parse_manifest manifest_path (files w1) of
                    Inl e \<Rightarrow> (Inl e, w1)
                  | Inr manifest_data \<Rightarrow>
                      (let series_ids_to_download =
                             get_list manifest_data ''ListOfSeriesToDownload''
                       in case no_of_retries_of manifest_data of
                            Inl e \<Rightarrow> (Inl e, w1)
                          | Inr no_of_retries \<Rightarrow>
                              (let w2 = emit (Print (DownloadingSeries
                                          (length series_ids_to_download) destination_folder)) w1
                               in if njobs \<le> 0 then (Inl ValueError, w2)
                                  else
                                    (case run_jobs destination_folder no_of_retries
                                            series_ids_to_download w2 of
                                       (results, w3) \<Rightarrow>
                                         (case collect_results results of
                                            Inl e \<Rightarrow> (Inl e, w3)
                                          | Inr u \<Rightarrow> (Inr (), emit (Print Done) w3))))))))"

section \<open>The specification's parsing rule\<close>

text \<open>
  The rule of the specification, per line (trimmed first), on a mapping and the active key:
  a line with \<open>=\<close> is split on the first \<open>=\<close> and registers its key, with the trimmed
  value as only element when that is non-empty; any other non-empty line is appended to
  the active key's sequence; lines before any key are dropped. In
  \<open>spec_rule_claimed\<close> the active key is the key registered last, whatever it is.
\<close>

definition spec_rule_claimed :: "string \<Rightarrow> parser_state \<Rightarrow> parser_state" where
  "spec_rule_claimed raw st =
     (let line = strip raw in
      if CHR ''='' \<in> set line then
        (let key = strip (takeWhile (\<lambda>c. c \<noteq> CHR ''='') line);
             val = strip (drop 1 (dropWhile (\<lambda>c. c \<noteq> CHR ''='') line))
         in ((fst st)(key \<mapsto> (if val \<noteq> [] then [val] else [])), Some key))
      else
        (case snd st of
           None \<Rightarrow> st
         | Some key \<Rightarrow>
             if line \<noteq> [] then
               ((fst st)(key \<mapsto> (case fst st key of None \<Rightarrow> [] | Some vs \<Rightarrow> vs) @ [line]),
                Some key)
             else st))"

definition spec_manifest_claimed :: "string list \<Rightarrow> manifest" where
  "spec_manifest_claimed ls =
     fst (foldl (\<lambda>st l. spec_rule_claimed l st) (Map.empty, None) ls)"

text \<open>The same rule, where a key that is the empty string is registered but never active.\<close>

definition spec_rule :: "string \<Rightarrow> parser_state \<Rightarrow> parser_state" where
  "spec_rule raw st =
     (let line = strip raw in
      if CHR ''='' \<in> set line then
        (let key = strip (takeWhile (\<lambda>c. c \<noteq> CHR ''='') line);
             val = strip (drop 1 (dropWhile (\<lambda>c. c \<noteq> CHR ''='') line))
         in ((fst st)(key \<mapsto> (if val \<noteq> [] then [val] else [])), Some key))
      else
        (case snd st of
           None \<Rightarrow> st
         | Some key \<Rightarrow>
             if line \<noteq> [] \<and> key \<noteq> [] then
               ((fst st)(key \<mapsto> (case fst st key of None \<Rightarrow> [] | Some vs \<Rightarrow> vs) @ [line]),
                Some key)
             else st))"

definition spec_manifest :: "string list \<Rightarrow> manifest" where
  "spec_manifest ls = fst (foldl (\<lambda>st l. spec_rule l st) (Map.empty, None) ls)"

text \<open>The key a line registers, if it has a \<open>=\<close>.\<close>

definition line_key :: "string \<Rightarrow> string option" where
  "line_key raw =
     (let line = strip raw in
      if CHR ''='' \<in> set line then Some (strip (fst (partition_str CHR ''='' line))) else None)"

text \<open>
  What a line with \<open>=\<close> contributes to its key: the trimmed text after the first
  \<open>=\<close> as only element, or nothing when that is empty. And what the lines after it
  contribute: up to the next line with \<open>=\<close>, the non-empty trimmed lines, unless the
  key is the empty string.
\<close>

definition line_value :: "string \<Rightarrow> string list" where
  "line_value raw =
     (let val = strip (drop 1 (dropWhile (\<lambda>c. c \<noteq> CHR ''='') (strip raw)))
      in if val \<noteq> [] then [val] else [])"

definition continuation :: "string \<Rightarrow> string list \<Rightarrow> string list" where
  "continuation K ls =
     (if K = [] then []
      else filter (\<lambda>s. s \<noteq> []) (map strip (takeWhile (\<lambda>x. line_key x = None) ls)))"

text \<open>Invariants of the parser's loop, used in the proofs.\<close>

definition key_registered :: "parser_state \<Rightarrow> bool" where
  "key_registered st = (case snd st of None \<Rightarrow> True | Some k \<Rightarrow> fst st k \<noteq> None)"

definition agree_at :: "string \<Rightarrow> parser_state \<Rightarrow> parser_state \<Rightarrow> bool" where
  "agree_at K st st' =
     (snd st = snd st' \<and> fst st K = fst st' K \<and>
      (case snd st of None \<Rightarrow> True | Some k \<Rightarrow> fst st k = fst st' k))"

section \<open>Notions used to state the fetcher's and the orchestrator's properties\<close>

text \<open>The requests and sleeps of a trace, without the printed lines.\<close>

definition actions :: "event list \<Rightarrow> event list" where
  "actions es = filter (\<lambda>e. case e of Print m \<Rightarrow> False | _ \<Rightarrow> True) es"

text \<open>
  A reply on which an attempt raises before it opens the destination file: no connection,
  an error status, or a type tag that is not \<open>"ZIP"\<close> (or cannot be read).
\<close>

definition rejected :: "reply \<Rightarrow> bool" where
  "rejected r =
     (case r of
        Unreachable \<Rightarrow> True
      | Reply code header body broken \<Rightarrow>
          (400 \<le> code \<and> code < 600) \<or> filetype_of header \<noteq> Inr (JStr ''ZIP''))"

text \<open>
  An attempt that raises before the destination file is opened for writing: the reply is
  rejected, or \<open>open\<close> itself fails (the folder of the destination is missing).
\<close>

definition fails_before_open :: "filesystem \<Rightarrow> path \<Rightarrow> reply \<Rightarrow> bool" where
  "fails_before_open disk dest_file r = (rejected r \<or> isl (fst (open_wb dest_file disk)))"

text \<open>
  The \<open>except\<close> branch of \<open>download_series\<close> on its own: what the loop does after an
  attempt has left with the exception \<open>e\<close> in the world \<open>w'\<close>, at the count \<open>rc\<close>.
\<close>

definition except_branch ::
  "string \<Rightarrow> path \<Rightarrow> int \<Rightarrow> int \<Rightarrow> py_error \<Rightarrow> world \<Rightarrow> (py_error + path) \<times> world" where
  "except_branch series_id dest_file max_retries retry_count e w' =
     (let w1 = emit (Print (ErrorDownloading series_id e)) w';
          retry_count' = retry_count + 1
      in if retry_count' > max_retries
         then (Inr dest_file, emit (Print (FailedAfter series_id max_retries)) w1)
         else download_loop series_id dest_file max_retries retry_count'
                (emit (Sleep 1) (emit (Print (Retrying retry_count' max_retries)) w1)))"

text \<open>Replies and worlds for the examples.\<close>

definition zip_header :: metadata_header where
  "zip_header = Json (JObj [(''Result'', JObj [(''Type'', JArr [JStr ''ZIP''])])])"

definition html_header :: metadata_header where
  "html_header = Json (JObj [(''Result'', JObj [(''Type'', JArr [JStr ''HTML''])])])"

definition offline_world :: "filesystem \<Rightarrow> world" where
  "offline_world disk = \<lparr>files = disk, remote = (\<lambda>sid k. Unreachable), trace = []\<rparr>"

definition serving_world :: "filesystem \<Rightarrow> reply \<Rightarrow> world" where
  "serving_world disk r = \<lparr>files = disk, remote = (\<lambda>sid k. r), trace = []\<rparr>"

definition tag_world :: "filesystem \<Rightarrow> string \<Rightarrow> reply \<Rightarrow> world" where
  "tag_world disk good r =
     \<lparr>files = disk, remote = (\<lambda>sid k. if sid = good then r else Unreachable), trace = []\<rparr>"

definition two_series_manifest :: string where
  "two_series_manifest = ''ListOfSeriesToDownload=\<newline>1.2\<newline>3.4\<newline>noOfrRetry=1''"

declare download_loop.simps [simp del]
declare mkdir.simps [simp del]

section \<open>Properties of the manifest parser\<close>

lemma strip_empty: "strip [] = []"
  by (simp add: strip_def)

lemma strip_nonempty:
  assumes "xs \<noteq> []" and "\<not> is_space (last xs)"
  shows "strip xs \<noteq> []"
proof -
  have a: "dropWhile is_space xs \<noteq> []"
    using assms by (metis dropWhile_eq_Nil_conv last_in_set)
  have "last (dropWhile is_space xs) = last xs"
    using a by (metis last_appendR takeWhile_dropWhile_id)
  then have "\<not> is_space (hd (rev (dropWhile is_space xs)))"
    using a assms by (simp add: hd_rev)
  then have "dropWhile is_space (rev (dropWhile is_space xs)) \<noteq> []"
    using a by (metis dropWhile_eq_Nil_conv hd_in_set rev_is_Nil_conv)
  then show ?thesis by (simp add: strip_def)
qed

lemma strip_last:
  assumes "strip s \<noteq> []"
  shows "\<not> is_space (last (strip s))"
proof -
  let ?t = "dropWhile is_space (rev (dropWhile is_space s))"
  have ne: "?t \<noteq> []" using assms by (simp add: strip_def)
  then have "\<not> is_space (hd ?t)" by (rule hd_dropWhile)
  moreover have "last (strip s) = hd ?t" using ne by (simp add: strip_def last_rev)
  ultimately show ?thesis by simp
qed

text \<open>
  The remainder after the first \<open>=\<close> of a trimmed line ends as the line does, so the
  source's test on the untrimmed remainder is the test on the trimmed value.
\<close>

lemma value_test:
  assumes "v = drop 1 (dropWhile P (strip raw))"
  shows "(strip v \<noteq> []) = (v \<noteq> [])"
proof
  assume "strip v \<noteq> []"
  then show "v \<noteq> []" using strip_empty by auto
next
  assume ne: "v \<noteq> []"
  have v: "v = drop (1 + length (takeWhile P (strip raw))) (strip raw)"
    using assms by (simp add: dropWhile_eq_drop)
  then have lt: "1 + length (takeWhile P (strip raw)) < length (strip raw)"
    using ne by (metis drop_all not_le)
  then have "last v = last (strip raw)" using v by (metis last_drop)
  moreover have "strip raw \<noteq> []" using lt by auto
  ultimately have "\<not> is_space (last v)" using strip_last by simp
  then show "strip v \<noteq> []" using ne by (rule strip_nonempty[rotated])
qed

lemma parse_line_spec:
  assumes "key_registered st"
  shows "parse_line l st = Inr (spec_rule l st)"
proof (cases "CHR ''='' \<in> set (strip l)")
  case True
  then show ?thesis
    using value_test[OF refl, of "\<lambda>c. c \<noteq> CHR ''=''" l]
    by (simp add: parse_line_def spec_rule_def partition_str_def Let_def)
next
  case False
  then show ?thesis using assms
    by (cases st)
       (auto simp: parse_line_def spec_rule_def Let_def truthy_key_def key_registered_def
             split: option.splits)
qed

lemma spec_rule_registered: "key_registered st \<Longrightarrow> key_registered (spec_rule l st)"
  by (cases st) (auto simp: spec_rule_def Let_def key_registered_def split: option.splits)

lemma parse_lines_spec:
  "key_registered st \<Longrightarrow> parse_lines ls st = Inr (foldl (\<lambda>st l. spec_rule l st) st ls)"
proof (induction ls arbitrary: st)
  case Nil
  then show ?case by simp
next
  case (Cons l ls)
  then show ?case by (simp add: parse_line_spec spec_rule_registered)
qed

lemma parse_manifest_lines_spec: "parse_manifest_lines ls = Inr (spec_manifest ls)"
  by (simp add: parse_manifest_lines_def spec_manifest_def parse_lines_spec key_registered_def)

lemma spec_rule_before_key:
  "CHR ''='' \<notin> set (strip l) \<Longrightarrow> spec_rule l (m, None) = (m, None)"
  by (simp add: spec_rule_def)

lemma spec_manifest_drops_prefix:
  "spec_manifest (filter (\<lambda>l. CHR ''='' \<notin> set (strip l)) pre @ ls) = spec_manifest ls"
proof -
  have "foldl (\<lambda>st l. spec_rule l st) (Map.empty, None)
          (filter (\<lambda>l. CHR ''='' \<notin> set (strip l)) pre) = (Map.empty, None)"
    by (induction pre) (simp_all add: spec_rule_before_key)
  then show ?thesis by (simp add: spec_manifest_def)
qed

lemmas parser_defs =
  parse_manifest_text_def parse_manifest_lines_def file_lines_def parse_line_def
  strip_def is_space_def partition_str_def truthy_key_def Let_def

lemma parse_example_values:
  "parse_manifest_text ''KEY=V1\<newline>A\<newline>B'' = Inr [''KEY'' \<mapsto> [''V1'', ''A'', ''B'']]"
  by (simp add: parser_defs)

lemma parse_example_empty_value:
  "parse_manifest_text ''KEY=\<newline>A'' = Inr [''KEY'' \<mapsto> [''A'']]"
  by (simp add: parser_defs)

text \<open>
  C3, as stated, fails: after the line \<open>=V\<close> the key registered last is the empty string,
  and the source's test \<open>current_key and line\<close> drops the line \<open>A\<close> that the rule would
  append to it.
\<close>

theorem parse_manifest_empty_key_counterexample:
  "parse_manifest_text ''=V\<newline>A'' = Inr [[] \<mapsto> [''V'']] \<and>
   spec_manifest_claimed (file_lines ''=V\<newline>A'') [] = Some [''V'', ''A''] \<and>
   parse_manifest_text ''=V\<newline>A'' \<noteq> Inr (spec_manifest_claimed (file_lines ''=V\<newline>A''))"
proof -
  have a: "parse_manifest_text ''=V\<newline>A'' = Inr [[] \<mapsto> [''V'']]"
    by (simp add: parser_defs)
  have b: "spec_manifest_claimed (file_lines ''=V\<newline>A'') [] = Some [''V'', ''A'']"
    by (simp add: spec_manifest_claimed_def spec_rule_claimed_def parser_defs)
  have "[[] \<mapsto> [''V'']] \<noteq> spec_manifest_claimed (file_lines ''=V\<newline>A'')"
  proof
    assume e: "[[] \<mapsto> [''V'']] = spec_manifest_claimed (file_lines ''=V\<newline>A'')"
    have "spec_manifest_claimed (file_lines ''=V\<newline>A'') [] = Some [''V'']"
      by (simp add: e[symmetric])
    then show False using b by simp
  qed
  then show ?thesis using a b by simp
qed

text \<open>
  C3, amended: for every input text the parser never fails and returns the mapping of the
  rule in which a line without \<open>=\<close> is appended to the key registered last only when that
  key is not the empty string: a line with \<open>=\<close> is split on the first \<open>=\<close>, the trimmed
  key is registered with the trimmed value as its only element when that is non-empty and
  with no element otherwise; lines without \<open>=\<close> before any key are dropped. The manifest
  \<open>KEY=V1\<close>, \<open>A\<close>, \<open>B\<close> gives \<open>KEY \<mapsto> [V1, A, B]\<close>, and \<open>KEY=\<close>, \<open>A\<close> gives
  \<open>KEY \<mapsto> [A]\<close>.
\<close>

theorem parse_manifest_accumulation:
  "parse_manifest_text text = Inr (spec_manifest (file_lines text)) \<and>
   parse_manifest_lines ls = Inr (spec_manifest ls) \<and>
   parse_manifest_lines (filter (\<lambda>l. CHR ''='' \<notin> set (strip l)) pre @ ls) = parse_manifest_lines ls \<and>
   parse_manifest_text ''KEY=V1\<newline>A\<newline>B'' = Inr [''KEY'' \<mapsto> [''V1'', ''A'', ''B'']] \<and>
   parse_manifest_text ''KEY=\<newline>A'' = Inr [''KEY'' \<mapsto> [''A'']]"
proof -
  have "parse_manifest_text text = Inr (spec_manifest (file_lines text))"
    by (simp add: parse_manifest_text_def parse_manifest_lines_spec)
  moreover have "parse_manifest_lines (filter (\<lambda>l. CHR ''='' \<notin> set (strip l)) pre @ ls)
                   = parse_manifest_lines ls"
    by (simp only: parse_manifest_lines_spec spec_manifest_drops_prefix)
  ultimately show ?thesis
    using parse_manifest_lines_spec parse_example_values parse_example_empty_value by simp
qed

lemma spec_rule_agree: "agree_at K st st' \<Longrightarrow> agree_at K (spec_rule l st) (spec_rule l st')"
  by (cases st; cases st')
     (auto simp: agree_at_def spec_rule_def Let_def split: option.splits)

lemma foldl_spec_rule_agree:
  "agree_at K st st' \<Longrightarrow>
   agree_at K (foldl (\<lambda>st l. spec_rule l st) st ls) (foldl (\<lambda>st l. spec_rule l st) st' ls)"
  by (induction ls arbitrary: st st') (simp_all add: spec_rule_agree)

lemma spec_rule_key_line:
  "line_key l = Some K \<Longrightarrow> agree_at K (spec_rule l st) (spec_rule l st')"
  by (auto simp: line_key_def agree_at_def spec_rule_def partition_str_def Let_def
           split: if_splits)

lemma spec_manifest_later_occurrence:
  assumes "line_key l = Some K"
  shows "spec_manifest (pre @ l # post) K = spec_manifest (l # post) K"
proof -
  let ?f = "\<lambda>st l. spec_rule l st"
  have "agree_at K (foldl ?f (spec_rule l (foldl ?f (Map.empty, None) pre)) post)
                   (foldl ?f (spec_rule l (Map.empty, None)) post)"
    using assms by (intro foldl_spec_rule_agree spec_rule_key_line)
  then show ?thesis by (simp add: spec_manifest_def agree_at_def)
qed

lemma line_key_None: "(line_key x = None) = (CHR ''='' \<notin> set (strip x))"
  by (simp add: line_key_def Let_def)

lemma spec_rule_key_line_state:
  assumes "line_key l = Some K"
  shows "fst (spec_rule l st) K = Some (line_value l) \<and> snd (spec_rule l st) = Some K"
  using assms
  by (auto simp: line_key_def spec_rule_def line_value_def partition_str_def Let_def
           split: if_splits)

lemma spec_rule_other_key:
  assumes "line_key x \<noteq> Some K" and "snd st \<noteq> Some K"
  shows "fst (spec_rule x st) K = fst st K \<and> snd (spec_rule x st) \<noteq> Some K"
  using assms
  by (cases st)
     (auto simp: line_key_def spec_rule_def partition_str_def Let_def
           split: if_splits option.splits)

lemma spec_rule_key_line_other:
  assumes "line_key x = Some k'" and "k' \<noteq> K"
  shows "fst (spec_rule x st) K = fst st K \<and> snd (spec_rule x st) = Some k'"
  using assms
  by (cases st)
     (auto simp: line_key_def spec_rule_def partition_str_def Let_def split: if_splits)

lemma foldl_spec_rule_frozen:
  assumes "\<forall>x \<in> set ls. line_key x \<noteq> Some K" and "snd st \<noteq> Some K"
  shows "fst (foldl (\<lambda>st l. spec_rule l st) st ls) K = fst st K"
  using assms
proof (induction ls arbitrary: st)
  case Nil
  then show ?case by simp
next
  case (Cons x ls)
  from spec_rule_other_key[of x K st] Cons.prems
  have "fst (spec_rule x st) K = fst st K" and "snd (spec_rule x st) \<noteq> Some K" by auto
  with Cons.IH[of "spec_rule x st"] Cons.prems show ?case by simp
qed

lemma foldl_spec_rule_accumulate:
  assumes "\<forall>x \<in> set ls. line_key x = None" and "snd st = Some K" and "fst st K = Some vs"
  shows "fst (foldl (\<lambda>st l. spec_rule l st) st ls) K
           = Some (vs @ (if K = [] then [] else filter (\<lambda>s. s \<noteq> []) (map strip ls))) \<and>
         snd (foldl (\<lambda>st l. spec_rule l st) st ls) = Some K"
  using assms
proof (induction ls arbitrary: st vs)
  case Nil
  then show ?case by simp
next
  case (Cons x ls)
  have nx: "CHR ''='' \<notin> set (strip x)" using Cons.prems(1) by (simp add: line_key_None)
  let ?add = "if K = [] \<or> strip x = [] then [] else [strip x]"
  have s: "fst (spec_rule x st) K = Some (vs @ ?add) \<and> snd (spec_rule x st) = Some K"
    using nx Cons.prems(2,3) by (cases st) (auto simp: spec_rule_def Let_def)
  from Cons.IH[of "spec_rule x st" "vs @ ?add"] s Cons.prems(1)
  show ?case by auto
qed

lemma spec_manifest_last_occurrence:
  assumes "line_key l = Some K" and "\<forall>x \<in> set post. line_key x \<noteq> Some K"
  shows "spec_manifest (pre @ l # post) K = Some (line_value l @ continuation K post)"
proof -
  let ?f = "\<lambda>st l. spec_rule l st"
  let ?seg = "takeWhile (\<lambda>x. line_key x = None) post"
  let ?rest = "dropWhile (\<lambda>x. line_key x = None) post"
  let ?s0 = "spec_rule l (foldl ?f (Map.empty, None) pre)"
  have s0: "fst ?s0 K = Some (line_value l)" "snd ?s0 = Some K"
    using spec_rule_key_line_state[OF assms(1)] by simp_all
  have seg: "\<forall>x \<in> set ?seg. line_key x = None" by (auto dest: set_takeWhileD)
  let ?s1 = "foldl ?f ?s0 ?seg"
  from foldl_spec_rule_accumulate[OF seg s0(2) s0(1)]
  have s1: "fst ?s1 K = Some (line_value l @ continuation K post)" "snd ?s1 = Some K"
    by (simp_all add: continuation_def)
  have "fst (foldl ?f ?s1 ?rest) K = Some (line_value l @ continuation K post)"
  proof (cases ?rest)
    case Nil
    show ?thesis unfolding Nil using s1(1) by simp
  next
    case (Cons x rest')
    from Cons[unfolded dropWhile_eq_Cons_conv]
    have nx: "\<not> (line_key x = None)" by (rule conjunct2)
    have sub: "set (x # rest') \<subseteq> set post"
      unfolding Cons[symmetric] by (auto dest: set_dropWhileD)
    from nx sub assms(2) obtain k' where k': "line_key x = Some k'" "k' \<noteq> K"
      by (cases "line_key x") auto
    note x1 = spec_rule_key_line_other[OF k', of ?s1]
    have "\<forall>y \<in> set rest'. line_key y \<noteq> Some K" using sub assms(2) by auto
    then have "fst (foldl ?f (spec_rule x ?s1) rest') K = fst (spec_rule x ?s1) K"
      using x1 k'(2) by (intro foldl_spec_rule_frozen) simp_all
    then show ?thesis unfolding Cons using x1 s1(1) by simp
  qed
  moreover have "foldl ?f ?s0 (?seg @ ?rest) = foldl ?f ?s1 ?rest"
    by (rule foldl_append)
  then have "foldl ?f ?s0 post = foldl ?f ?s1 ?rest"
    by (simp only: takeWhile_dropWhile_id)
  then have "foldl ?f (Map.empty, None) (pre @ l # post) = foldl ?f ?s1 ?rest"
    by simp
  ultimately show ?thesis by (simp only: spec_manifest_def)
qed

text \<open>
  C9: when a line registers the key \<open>K\<close>, whatever lines came before it, the parser
  succeeds and the entry of \<open>K\<close> in its result is the one the rule builds from that
  line onward; when no later line registers \<open>K\<close> again, that entry is exactly the value
  of the line followed by the non-empty lines after it up to the next line with \<open>=\<close>.
  So for two lines registering the same key, the values of the earlier occurrence (its
  value and the lines appended to it) are discarded, not merged.
\<close>

theorem later_key_line_overrides:
  assumes "line_key l = Some K"
  shows "\<exists>m. parse_manifest_lines (pre @ l # post) = Inr m \<and>
             m K = spec_manifest (l # post) K \<and>
             ((\<forall>x \<in> set post. line_key x \<noteq> Some K) \<longrightarrow>
                m K = Some (line_value l @ continuation K post))"
proof -
  have "spec_manifest (pre @ l # post) K = spec_manifest (l # post) K"
    using assms by (rule spec_manifest_later_occurrence)
  moreover have "spec_manifest (pre @ l # post) K = Some (line_value l @ continuation K post)"
    if "\<forall>x \<in> set post. line_key x \<noteq> Some K"
    using assms that by (rule spec_manifest_last_occurrence)
  ultimately show ?thesis by (simp add: parse_manifest_lines_spec)
qed

theorem later_key_line_overrides_witness:
  "line_key ''K=c'' = Some ''K'' \<and> line_key ''d'' \<noteq> Some ''K'' \<and>
   line_value ''K=c'' @ continuation ''K'' [''d''] = [''c'', ''d''] \<and>
   (\<exists>m. parse_manifest_lines ([''K=a'', ''b''] @ ''K=c'' # [''d'']) = Inr m \<and>
        m ''K'' = Some [''c'', ''d''])"
proof -
  have k: "line_key ''K=c'' = Some ''K''"
    by (simp add: line_key_def parser_defs)
  have d: "line_key ''d'' \<noteq> Some ''K''"
    by (simp add: line_key_def parser_defs)
  have v: "line_value ''K=c'' @ continuation ''K'' [''d''] = [''c'', ''d'']"
    by (simp add: line_value_def continuation_def line_key_def strip_def is_space_def Let_def)
  from later_key_line_overrides[OF k, of "[''K=a'', ''b'']" "[''d'']"] d
  obtain m where "parse_manifest_lines ([''K=a'', ''b''] @ ''K=c'' # [''d'']) = Inr m"
    and "m ''K'' = Some (line_value ''K=c'' @ continuation ''K'' [''d''])"
    by auto
  with k d v show ?thesis by auto
qed

section \<open>Properties of the series fetcher\<close>

lemma emit_simps [simp]:
  "files (emit e w) = files w"
  "remote (emit e w) = remote w"
  "trace (emit e w) = trace w @ [e]"
  by (simp_all add: emit_def)

lemma attempt_returns_dest: "attempt sid dest w = (Inr p, w') \<Longrightarrow> p = dest"
  by (auto simp: attempt_def requests_get_def Let_def
           split: if_splits reply.splits sum.splits prod.splits)

text \<open>The \<open>except\<close> branch treats every exception alike: one more attempt is counted.\<close>

lemma loop_on_failure:
  assumes "rc \<le> N" and "attempt sid dest w = (Inl e, w')"
  shows "download_loop sid dest N rc w =
     (if N < rc + 1
      then (Inr dest, emit (Print (FailedAfter sid N)) (emit (Print (ErrorDownloading sid e)) w'))
      else download_loop sid dest N (rc + 1)
             (emit (Sleep 1) (emit (Print (Retrying (rc + 1) N))
                (emit (Print (ErrorDownloading sid e)) w'))))"
  using assms by (subst download_loop.simps) (simp add: Let_def)

lemma loop_on_return:
  assumes "rc \<le> N" and "attempt sid dest w = (Inr p, w')"
  shows "download_loop sid dest N rc w = (Inr dest, w')"
  using assms attempt_returns_dest[OF assms(2)] by (subst download_loop.simps) simp

lemma loop_exhausted: "N < rc \<Longrightarrow> download_loop sid dest N rc w = (Inr dest, w)"
  by (subst download_loop.simps) simp

lemma download_loop_returns: "fst (download_loop sid dest N rc w) = Inr dest"
proof (induction sid dest N rc w rule: download_loop.induct)
  case (1 sid dest N rc w)
  show ?case
  proof (cases "rc \<le> N")
    case False
    then show ?thesis by (simp add: loop_exhausted)
  next
    case True
    obtain r w' where a: "attempt sid dest w = (r, w')" by (cases "attempt sid dest w")
    show ?thesis
    proof (cases r)
      case (Inr p)
      with a True show ?thesis by (simp add: loop_on_return)
    next
      case (Inl e)
      with a have a': "attempt sid dest w = (Inl e, w')" by simp
      show ?thesis
        using "1.IH"[OF True a'[symmetric] refl refl refl] loop_on_failure[OF True a']
        by (cases "N < rc + 1") simp_all
    qed
  qed
qed

lemma attempt_rejected:
  assumes "\<not> exists_path (files w) dest"
    and "rejected (remote w sid (count_list (trace w) (Request sid)))"
  shows "\<exists>e. attempt sid dest w = (Inl e, emit (Request sid) w)"
  using assms
  by (auto simp: attempt_def requests_get_def rejected_def split: reply.splits sum.splits)

lemma open_wb_error: "open_wb p d = (Inl e, d') \<Longrightarrow> d' = d"
  by (auto simp: open_wb_def split: if_splits option.splits node.splits)

lemma attempt_fails_early:
  assumes "\<not> exists_path (files w) dest"
    and "fails_before_open (files w) dest (remote w sid (count_list (trace w) (Request sid)))"
  shows "\<exists>e. attempt sid dest w = (Inl e, emit (Request sid) w)"
proof (cases "rejected (remote w sid (count_list (trace w) (Request sid)))")
  case True
  with assms(1) show ?thesis by (rule attempt_rejected)
next
  case False
  with assms(2) have "isl (fst (open_wb dest (files w)))"
    by (simp add: fails_before_open_def)
  then obtain e d where o: "open_wb dest (files w) = (Inl e, d)"
    by (cases "open_wb dest (files w)") (auto simp: isl_def)
  with open_wb_error have "d = files w" by simp
  then have "(emit (Request sid) w)\<lparr>files := d\<rparr> = emit (Request sid) w"
    by (simp add: emit_def)
  with False assms(1) o show ?thesis
    by (auto simp: attempt_def requests_get_def rejected_def split: reply.splits sum.splits)
qed

lemma loop_all_fail_early:
  assumes "rc \<le> N" and "\<not> exists_path (files w) dest"
    and "\<forall>k. fails_before_open (files w) dest (remote w sid k)"
  shows "\<exists>w' new. download_loop sid dest N rc w = (Inr dest, w') \<and> files w' = files w \<and>
           remote w' = remote w \<and> trace w' = trace w @ new \<and>
           actions new = concat (replicate (nat (N - rc)) [Request sid, Sleep 1]) @ [Request sid]"
  using assms
proof (induction sid dest N rc w rule: download_loop.induct)
  case (1 sid dest N rc w)
  from attempt_fails_early[OF "1.prems"(2), of sid] "1.prems"(3)
  obtain e where a: "attempt sid dest w = (Inl e, emit (Request sid) w)" by blast
  let ?w1 = "emit (Print (ErrorDownloading sid e)) (emit (Request sid) w)"
  show ?case
  proof (cases "N < rc + 1")
    case True
    then have "N = rc" using "1.prems"(1) by simp
    then show ?thesis
      using loop_on_failure[OF "1.prems"(1) a] by (simp add: actions_def)
  next
    case False
    let ?w2 = "emit (Sleep 1) (emit (Print (Retrying (rc + 1) N)) ?w1)"
    have "\<exists>w' new. download_loop sid dest N (rc + 1) ?w2 = (Inr dest, w') \<and>
           files w' = files ?w2 \<and> remote w' = remote ?w2 \<and> trace w' = trace ?w2 @ new \<and>
           actions new =
             concat (replicate (nat (N - (rc + 1))) [Request sid, Sleep 1]) @ [Request sid]"
      using "1.IH"[OF "1.prems"(1) a[symmetric] refl refl refl] False "1.prems" by simp
    then obtain w' new where r: "download_loop sid dest N (rc + 1) ?w2 = (Inr dest, w')"
       "files w' = files w" "remote w' = remote w" "trace w' = trace ?w2 @ new"
       "actions new =
          concat (replicate (nat (N - (rc + 1))) [Request sid, Sleep 1]) @ [Request sid]"
      by auto
    have n: "nat (N - rc) = Suc (nat (N - (rc + 1)))" using False by simp
    show ?thesis
      using loop_on_failure[OF "1.prems"(1) a] False r
      by (simp add: actions_def n)
  qed
qed

lemma loop_all_rejected:
  assumes "rc \<le> N" and "\<not> exists_path (files w) dest" and "\<forall>k. rejected (remote w sid k)"
  shows "\<exists>w' new. download_loop sid dest N rc w = (Inr dest, w') \<and> files w' = files w \<and>
           remote w' = remote w \<and> trace w' = trace w @ new \<and>
           actions new = concat (replicate (nat (N - rc)) [Request sid, Sleep 1]) @ [Request sid]"
  using assms(3) by (intro loop_all_fail_early[OF assms(1,2)]) (simp add: fails_before_open_def)

lemma count_list_actions:
  "(\<And>m. e \<noteq> Print m) \<Longrightarrow> count_list (actions es) e = count_list es e"
  by (induction es) (auto simp: actions_def split: event.splits)

lemma count_list_append: "count_list (xs @ ys) a = count_list xs a + count_list ys a"
  by (induction xs) auto

lemma count_requests_pattern:
  "count_list (concat (replicate n [Request sid, Sleep 1]) @ [Request sid]) (Request sid) = n + 1"
  by (induction n) auto

lemma count_sleeps_pattern:
  "count_list (concat (replicate n [Request sid, Sleep 1]) @ [Request sid]) (Sleep 1) = n"
  by (induction n) auto

text \<open>
  C4: with \<open>max_retries = N \<ge> 0\<close>, no file at the destination and every attempt
  raising before the file is opened (the reply is rejected, or the file cannot be opened),
  \<open>download_series\<close> returns the destination path after exactly \<open>N + 1\<close> requests
  with a sleep of one second between consecutive ones (\<open>N\<close> sleeps), and it leaves the
  file system as it was: no file at the destination.
\<close>

theorem all_attempts_fail:
  assumes "0 \<le> N" and "\<not> exists_path (files w) dest"
    and "\<forall>k. fails_before_open (files w) dest (remote w sid k)"
  shows "\<exists>w' new. download_series sid dest N w = (Inr dest, w') \<and>
           files w' = files w \<and> \<not> exists_path (files w') dest \<and>
           trace w' = trace w @ new \<and>
           actions new = concat (replicate (nat N) [Request sid, Sleep 1]) @ [Request sid] \<and>
           count_list new (Request sid) = nat N + 1 \<and>
           count_list new (Sleep 1) = nat N"
proof -
  from loop_all_fail_early[OF assms(1) assms(2) assms(3)]
  obtain w' new where r: "download_loop sid dest N 0 w = (Inr dest, w')" "files w' = files w"
    "trace w' = trace w @ new"
    "actions new = concat (replicate (nat N) [Request sid, Sleep 1]) @ [Request sid]"
    by auto
  have "count_list new (Request sid) = count_list (actions new) (Request sid)"
    by (simp add: count_list_actions)
  then have c1: "count_list new (Request sid) = nat N + 1"
    using r(4) count_requests_pattern by simp
  have "count_list new (Sleep 1) = count_list (actions new) (Sleep 1)"
    by (simp add: count_list_actions)
  then have c2: "count_list new (Sleep 1) = nat N"
    using r(4) count_sleeps_pattern by simp
  show ?thesis
    using r c1 c2 assms(2) by (simp add: download_series_def)
qed

theorem all_attempts_fail_witness:
  "(0::int) \<le> 2 \<and> \<not> exists_path (files (offline_world Map.empty)) [''out'', ''1.2.zip''] \<and>
   (\<forall>k. fails_before_open (files (offline_world Map.empty)) [''out'', ''1.2.zip'']
          (remote (offline_world Map.empty) ''1.2'' k)) \<and>
   (\<exists>w'. download_series ''1.2'' [''out'', ''1.2.zip''] 2 (offline_world Map.empty)
            = (Inr [''out'', ''1.2.zip''], w') \<and>
         \<not> exists_path (files w') [''out'', ''1.2.zip''] \<and>
         actions (trace w') =
           [Request ''1.2'', Sleep 1, Request ''1.2'', Sleep 1, Request ''1.2''])"
proof -
  have h1: "(0::int) \<le> 2" by simp
  have h2: "\<not> exists_path (files (offline_world Map.empty)) [''out'', ''1.2.zip'']"
    by (simp add: offline_world_def exists_path_def lookup_def)
  have h3: "\<forall>k. fails_before_open (files (offline_world Map.empty)) [''out'', ''1.2.zip'']
                 (remote (offline_world Map.empty) ''1.2'' k)"
    by (simp add: offline_world_def rejected_def fails_before_open_def)
  have n: "replicate 2 x = [x, x]" for x :: "event list"
    by (simp add: numeral_2_eq_2)
  from all_attempts_fail[OF h1 h2 h3]
  obtain w' new where
    "download_series ''1.2'' [''out'', ''1.2.zip''] 2 (offline_world Map.empty)
       = (Inr [''out'', ''1.2.zip''], w')"
    "\<not> exists_path (files w') [''out'', ''1.2.zip'']"
    "trace w' = trace (offline_world Map.empty) @ new"
    "actions new = concat (replicate (nat 2) [Request ''1.2'', Sleep 1]) @ [Request ''1.2'']"
    by blast
  then have "download_series ''1.2'' [''out'', ''1.2.zip''] 2 (offline_world Map.empty)
       = (Inr [''out'', ''1.2.zip''], w') \<and>
     \<not> exists_path (files w') [''out'', ''1.2.zip''] \<and>
     actions (trace w') = [Request ''1.2'', Sleep 1, Request ''1.2'', Sleep 1, Request ''1.2'']"
    by (simp add: n offline_world_def)
  then show ?thesis using h1 h2 h3 by blast
qed

text \<open>
  C5: with \<open>max_retries \<ge> 0\<close> and something at the destination path,
  \<open>download_series\<close> returns the path at once and leaves the world as it was: no request,
  no write, no sleep, nothing printed. So a second call after a first one that left the
  file there sends no request.
\<close>

theorem existing_file_short_circuit:
  assumes "0 \<le> N" and "exists_path (files w) dest"
  shows "download_series sid dest N w = (Inr dest, w)"
  using assms by (simp add: download_series_def download_loop.simps attempt_def)

theorem existing_file_short_circuit_witness:
  "(0::int) \<le> 1 \<and>
   exists_path (files (snd (download_series ''1.2'' [''out'', ''1.2.zip''] 1
      (serving_world [[''out''] \<mapsto> Dir] (Reply 200 zip_header [''PK''] False)))))
      [''out'', ''1.2.zip''] \<and>
   download_series ''1.2'' [''out'', ''1.2.zip''] 1
     (snd (download_series ''1.2'' [''out'', ''1.2.zip''] 1
        (serving_world [[''out''] \<mapsto> Dir] (Reply 200 zip_header [''PK''] False))))
   = (Inr [''out'', ''1.2.zip''],
      snd (download_series ''1.2'' [''out'', ''1.2.zip''] 1
        (serving_world [[''out''] \<mapsto> Dir] (Reply 200 zip_header [''PK''] False)))) \<and>
   actions (trace (snd (download_series ''1.2'' [''out'', ''1.2.zip''] 1
        (serving_world [[''out''] \<mapsto> Dir] (Reply 200 zip_header [''PK''] False)))))
   = [Request ''1.2'']"
proof -
  let ?w1 = "snd (download_series ''1.2'' [''out'', ''1.2.zip''] 1
      (serving_world [[''out''] \<mapsto> Dir] (Reply 200 zip_header [''PK''] False)))"
  have h1: "(0::int) \<le> 1" by simp
  have h2: "exists_path (files ?w1) [''out'', ''1.2.zip'']" by code_simp
  have h3: "actions (trace ?w1) = [Request ''1.2'']" by code_simp
  from existing_file_short_circuit[OF h1 h2, of "''1.2''"] h1 h2 h3
  show ?thesis by blast
qed

text \<open>
  C10: with \<open>max_retries < 0\<close> the loop body never runs: \<open>download_series\<close> returns the
  destination path and leaves the world as it was (no existence check, no request, no
  write, no sleep).
\<close>

theorem negative_retries_no_attempt:
  assumes "N < 0"
  shows "download_series sid dest N w = (Inr dest, w)"
  using assms by (simp add: download_series_def loop_exhausted)

theorem negative_retries_no_attempt_witness:
  "(- 1 :: int) < 0 \<and>
   download_series ''1.2'' [''out'', ''1.2.zip''] (- 1) (offline_world Map.empty)
     = (Inr [''out'', ''1.2.zip''], offline_world Map.empty)"
proof -
  have h: "(- 1 :: int) < 0" by simp
  from negative_retries_no_attempt[OF h] h show ?thesis by blast
qed

lemma loop_except_branch:
  assumes "rc \<le> N" and "attempt sid dest w = (Inl e, w')"
  shows "download_loop sid dest N rc w = except_branch sid dest N rc e w'"
  using assms by (subst download_loop.simps) (simp add: except_branch_def)

lemma attempt_non_zip:
  assumes "\<not> exists_path (files w) dest"
    and "remote w sid (count_list (trace w) (Request sid)) = Reply code header body broken"
    and "\<not> (400 \<le> code \<and> code < 600)"
    and "filetype_of header \<noteq> Inr (JStr ''ZIP'')"
  shows "attempt sid dest w =
           (Inl (case filetype_of header of Inl x \<Rightarrow> x | Inr t \<Rightarrow> ValueError),
            emit (Request sid) w)"
  using assms by (auto simp: attempt_def requests_get_def split: sum.splits)

lemma attempt_unreachable:
  assumes "\<not> exists_path (files v) dest"
    and "remote v sid (count_list (trace v) (Request sid)) = Unreachable"
  shows "attempt sid dest v = (Inl ConnectionError, emit (Request sid) v)"
  using assms by (simp add: attempt_def requests_get_def)

text \<open>
  C6: on an attempt whose response has no error status but whose type tag is not exactly
  \<open>"ZIP"\<close> (or cannot be read), the attempt raises after the request with the file system
  unchanged, so nothing is written, and the loop goes on through its \<open>except\<close> branch at
  the same count, exactly as it does after a request that found no connection: one attempt
  is counted against the budget.
\<close>

theorem non_zip_counts_as_failed_attempt:
  assumes "rc \<le> N" and "\<not> exists_path (files w) dest"
    and "remote w sid (count_list (trace w) (Request sid)) = Reply code header body broken"
    and "\<not> (400 \<le> code \<and> code < 600)"
    and "filetype_of header \<noteq> Inr (JStr ''ZIP'')"
  shows "(\<exists>e. attempt sid dest w = (Inl e, emit (Request sid) w) \<and>
              files (emit (Request sid) w) = files w \<and>
              download_loop sid dest N rc w = except_branch sid dest N rc e (emit (Request sid) w)) \<and>
         (\<forall>v. \<not> exists_path (files v) dest \<and>
              remote v sid (count_list (trace v) (Request sid)) = Unreachable \<longrightarrow>
              download_loop sid dest N rc v =
                except_branch sid dest N rc ConnectionError (emit (Request sid) v))"
proof -
  let ?e = "case filetype_of header of Inl x \<Rightarrow> x | Inr t \<Rightarrow> ValueError"
  have a: "attempt sid dest w = (Inl ?e, emit (Request sid) w)"
    using assms(2-5) by (rule attempt_non_zip)
  have "download_loop sid dest N rc w = except_branch sid dest N rc ?e (emit (Request sid) w)"
    using assms(1) a by (rule loop_except_branch)
  with a have first: "\<exists>e. attempt sid dest w = (Inl e, emit (Request sid) w) \<and>
              files (emit (Request sid) w) = files w \<and>
              download_loop sid dest N rc w = except_branch sid dest N rc e (emit (Request sid) w)"
    by (intro exI[of _ ?e]) simp
  have second: "download_loop sid dest N rc v =
                except_branch sid dest N rc ConnectionError (emit (Request sid) v)"
    if "\<not> exists_path (files v) dest"
      and "remote v sid (count_list (trace v) (Request sid)) = Unreachable" for v
    using assms(1) attempt_unreachable[OF that] by (rule loop_except_branch)
  from first second show ?thesis by blast
qed

theorem non_zip_counts_as_failed_attempt_witness:
  "(0::int) \<le> 1 \<and>
   \<not> exists_path (files (serving_world [[''out''] \<mapsto> Dir] (Reply 200 html_header [''x''] False)))
        [''out'', ''1.2.zip''] \<and>
   filetype_of html_header \<noteq> Inr (JStr ''ZIP'') \<and>
   (\<exists>e. attempt ''1.2'' [''out'', ''1.2.zip'']
          (serving_world [[''out''] \<mapsto> Dir] (Reply 200 html_header [''x''] False))
        = (Inl e, emit (Request ''1.2'')
             (serving_world [[''out''] \<mapsto> Dir] (Reply 200 html_header [''x''] False)))) \<and>
   actions (trace (snd (download_series ''1.2'' [''out'', ''1.2.zip''] 1
      (serving_world [[''out''] \<mapsto> Dir] (Reply 200 html_header [''x''] False)))))
     = [Request ''1.2'', Sleep 1, Request ''1.2''] \<and>
   lookup (files (snd (download_series ''1.2'' [''out'', ''1.2.zip''] 1
      (serving_world [[''out''] \<mapsto> Dir] (Reply 200 html_header [''x''] False)))))
     [''out'', ''1.2.zip''] = None"
proof -
  let ?w = "serving_world [[''out''] \<mapsto> Dir] (Reply 200 html_header [''x''] False)"
  have h1: "(0::int) \<le> 1" by simp
  have h2: "\<not> exists_path (files ?w) [''out'', ''1.2.zip'']" by code_simp
  have h3: "remote ?w ''1.2'' (count_list (trace ?w) (Request ''1.2''))
              = Reply 200 html_header [''x''] False"
    by (simp add: serving_world_def)
  have h4: "\<not> (400 \<le> (200::nat) \<and> (200::nat) < 600)" by simp
  have h5: "filetype_of html_header \<noteq> Inr (JStr ''ZIP'')" by code_simp
  have t: "actions (trace (snd (download_series ''1.2'' [''out'', ''1.2.zip''] 1 ?w)))
             = [Request ''1.2'', Sleep 1, Request ''1.2'']"
    by code_simp
  have f: "lookup (files (snd (download_series ''1.2'' [''out'', ''1.2.zip''] 1 ?w)))
             [''out'', ''1.2.zip''] = None"
    by code_simp
  from non_zip_counts_as_failed_attempt[OF h1 h2 h3 h4 h5] h1 h2 h5 t f
  show ?thesis by blast
qed

lemma attempt_return_exists:
  "attempt sid dest w = (Inr p, w') \<Longrightarrow> exists_path (files w') dest"
  by (auto simp: attempt_def requests_get_def Let_def exists_path_def lookup_def
           split: if_splits reply.splits sum.splits prod.splits)

lemma loop_absent_failed:
  assumes "rc \<le> N"
    and "\<not> exists_path (files (snd (download_loop sid dest N rc w))) dest"
  shows "trace (snd (download_loop sid dest N rc w)) \<noteq> [] \<and>
         last (trace (snd (download_loop sid dest N rc w))) = Print (FailedAfter sid N)"
  using assms
proof (induction sid dest N rc w rule: download_loop.induct)
  case (1 sid dest N rc w)
  obtain r w' where a: "attempt sid dest w = (r, w')" by (cases "attempt sid dest w")
  show ?case
  proof (cases r)
    case (Inr p)
    with a have a': "attempt sid dest w = (Inr p, w')" by simp
    from loop_on_return[OF "1.prems"(1) a'] attempt_return_exists[OF a'] "1.prems"(2)
    show ?thesis by simp
  next
    case (Inl e)
    with a have a': "attempt sid dest w = (Inl e, w')" by simp
    show ?thesis
    proof (cases "N < rc + 1")
      case True
      then show ?thesis using loop_on_failure[OF "1.prems"(1) a'] by simp
    next
      case False
      then show ?thesis
        using "1.IH"[OF "1.prems"(1) a'[symmetric] refl refl refl]
          loop_on_failure[OF "1.prems"(1) a'] "1.prems"(2)
        by simp
    qed
  qed
qed

text \<open>
  C7, as stated, fails in its last part: a failure is not always observable as the absence
  of the file. With no retry left, an attempt whose stream breaks after the file was opened
  ends the call as a failure (the line "Failed to download" is printed) and leaves the
  partial file at the destination.
\<close>

theorem failure_with_file_present_counterexample:
  "fst (download_series ''1.2'' [''out'', ''1.2.zip''] 0
          (serving_world [[''out''] \<mapsto> Dir] (Reply 200 zip_header [''PK''] True)))
     = Inr [''out'', ''1.2.zip''] \<and>
   last (trace (snd (download_series ''1.2'' [''out'', ''1.2.zip''] 0
          (serving_world [[''out''] \<mapsto> Dir] (Reply 200 zip_header [''PK''] True)))))
     = Print (FailedAfter ''1.2'' 0) \<and>
   lookup (files (snd (download_series ''1.2'' [''out'', ''1.2.zip''] 0
          (serving_world [[''out''] \<mapsto> Dir] (Reply 200 zip_header [''PK''] True)))))
     [''out'', ''1.2.zip''] = Some (File ''PK'')"
  by code_simp

text \<open>
  C7, amended: \<open>download_series\<close> never leaves with an exception; for every series
  identifier, destination, \<open>max_retries\<close> and world it returns the destination path. The
  return value says nothing of the outcome: with \<open>max_retries \<ge> 0\<close>, when no file is at
  the destination afterwards the call has exhausted its retries (its last action is the
  line "Failed to download"); the converse does not hold.
\<close>

theorem download_series_returns_dest:
  "fst (download_series sid dest N w) = Inr dest \<and>
   (0 \<le> N \<and> \<not> exists_path (files (snd (download_series sid dest N w))) dest \<longrightarrow>
      trace (snd (download_series sid dest N w)) \<noteq> [] \<and>
      last (trace (snd (download_series sid dest N w))) = Print (FailedAfter sid N))"
  using download_loop_returns[of sid dest N 0 w] loop_absent_failed[of 0 N sid dest w]
  by (simp add: download_series_def)

theorem download_series_returns_dest_witness:
  "(0::int) \<le> 0 \<and>
   \<not> exists_path (files (snd (download_series ''1.2'' [''out'', ''1.2.zip''] 0
        (offline_world [[''out''] \<mapsto> Dir])))) [''out'', ''1.2.zip''] \<and>
   fst (download_series ''1.2'' [''out'', ''1.2.zip''] 0 (offline_world [[''out''] \<mapsto> Dir]))
     = Inr [''out'', ''1.2.zip''] \<and>
   last (trace (snd (download_series ''1.2'' [''out'', ''1.2.zip''] 0
        (offline_world [[''out''] \<mapsto> Dir])))) = Print (FailedAfter ''1.2'' 0)"
proof -
  let ?w = "offline_world [[''out''] \<mapsto> Dir]"
  have h1: "(0::int) \<le> 0" by simp
  have h2: "\<not> exists_path (files (snd (download_series ''1.2'' [''out'', ''1.2.zip''] 0 ?w)))
               [''out'', ''1.2.zip'']"
    by code_simp
  from download_series_returns_dest[of "''1.2''" "[''out'', ''1.2.zip'']" 0 ?w] h1 h2
  show ?thesis by blast
qed

section \<open>Properties of the file system operations\<close>

lemma os_mkdir_effect:
  assumes "os_mkdir p d = (r, d')"
  shows "lookup d' q = lookup d q \<or>
         (lookup d q = None \<and> lookup d' q = Some Dir \<and> length q \<le> length p)"
  using assms
  by (auto simp: os_mkdir_def lookup_def split: if_splits option.splits node.splits)

lemma os_mkdir_success: "os_mkdir p d = (Inr u, d') \<Longrightarrow> is_dir d' p"
  by (auto simp: os_mkdir_def is_dir_def lookup_def split: if_splits option.splits node.splits)

lemma mkdir_exist_ok_effect:
  assumes "mkdir_exist_ok p d = (r, d')"
  shows "lookup d' q = lookup d q \<or>
         (lookup d q = None \<and> lookup d' q = Some Dir \<and> length q \<le> length p)"
proof -
  obtain r0 d0 where o: "os_mkdir p d = (r0, d0)" by (cases "os_mkdir p d")
  with assms have "d' = d0"
    by (auto simp: mkdir_exist_ok_def split: sum.splits if_splits)
  with os_mkdir_effect[OF o, of q] show ?thesis by simp
qed

lemma mkdir_exist_ok_success: "mkdir_exist_ok p d = (Inr u, d') \<Longrightarrow> is_dir d' p"
  by (auto simp: mkdir_exist_ok_def split: prod.splits sum.splits if_splits
           dest: os_mkdir_success)

lemma mkdir_effect:
  "mkdir p d = (r, d') \<Longrightarrow>
     lookup d' q = lookup d q \<or>
     (lookup d q = None \<and> lookup d' q = Some Dir \<and> length q \<le> length p)"
proof (induction p d arbitrary: r d' rule: mkdir.induct)
  case (1 p d)
  obtain r0 d0 where o: "os_mkdir p d = (r0, d0)" by (cases "os_mkdir p d")
  note e0 = os_mkdir_effect[OF o, of q]
  show ?case
  proof (cases r0)
    case (Inr u)
    with o "1.prems" have "d' = d0" by (subst (asm) mkdir.simps) simp
    with e0 show ?thesis by simp
  next
    case (Inl e)
    show ?thesis
    proof (cases "e = FileNotFoundError \<and> butlast p \<noteq> p")
      case False
      with o Inl "1.prems" have "d' = d0"
        by (subst (asm) mkdir.simps) (auto split: if_splits)
      with e0 show ?thesis by simp
    next
      case True
      obtain r1 d1 where m: "mkdir (butlast p) d0 = (r1, d1)" by (cases "mkdir (butlast p) d0")
      have e1: "lookup d1 q = lookup d0 q \<or>
         (lookup d0 q = None \<and> lookup d1 q = Some Dir \<and> length q \<le> length (butlast p))"
        using "1.IH"[OF o[symmetric] _ _ _ m] Inl True by simp
      show ?thesis
      proof (cases r1)
        case (Inl e')
        with o \<open>r0 = Inl e\<close> True m "1.prems" have "d' = d1"
          by (subst (asm) mkdir.simps) simp
        with e0 e1 show ?thesis by auto
      next
        case (Inr u)
        with o \<open>r0 = Inl e\<close> True m "1.prems" have x: "mkdir_exist_ok p d1 = (r, d')"
          by (subst (asm) mkdir.simps) simp
        from mkdir_exist_ok_effect[OF x, of q] e0 e1 show ?thesis by auto
      qed
    qed
  qed
qed

lemma mkdir_success: "mkdir p d = (Inr u, d') \<Longrightarrow> is_dir d' p"
proof -
  assume a: "mkdir p d = (Inr u, d')"
  obtain r0 d0 where o: "os_mkdir p d = (r0, d0)" by (cases "os_mkdir p d")
  show ?thesis
  proof (cases r0)
    case (Inr v)
    with o a have "d' = d0" by (subst (asm) mkdir.simps) simp
    with o Inr os_mkdir_success show ?thesis by simp
  next
    case (Inl e)
    show ?thesis
    proof (cases "e = FileNotFoundError")
      case False
      with o Inl a show ?thesis
        by (subst (asm) mkdir.simps) (auto split: if_splits)
    next
      case True
      with o Inl a show ?thesis
        by (subst (asm) mkdir.simps)
           (auto split: if_splits prod.splits sum.splits dest: mkdir_exist_ok_success)
    qed
  qed
qed

lemma mkdir_keeps_files:
  assumes "mkdir p d = (r, d')"
  shows "is_file d' q = is_file d q"
  using mkdir_effect[OF assms, of q] by (auto simp: is_file_def)

lemma shutil_copy_error: "shutil_copy src dst d = (Inl e, d') \<Longrightarrow> d' = d"
  by (auto simp: shutil_copy_def open_wb_def Let_def
           split: if_splits option.splits node.splits prod.splits sum.splits)

lemma shutil_copy_into_dir:
  assumes "shutil_copy src dst d = (Inr u, d')" and "is_dir d dst"
    and "lookup d src = Some (File c)"
  shows "d' = d(dst @ [path_name src] \<mapsto> File c) \<and> src \<noteq> dst @ [path_name src]"
  using assms
  by (auto simp: shutil_copy_def open_wb_def Let_def exists_path_def
           split: if_splits option.splits node.splits prod.splits sum.splits)

text \<open>
  C1, as stated, fails: the destination folder is created before the manifest path is
  checked. With nothing on the disk, the run on the missing manifest \<open>missing.tcia\<close> raises
  \<open>ValueError\<close> and leaves the new directories \<open>out\<close> and \<open>out/missing.tcia\<close> behind.
\<close>

theorem folder_created_before_check_counterexample:
  "\<not> is_file (files (offline_world Map.empty)) [''missing.tcia''] \<and>
   \<not> exists_path (files (offline_world Map.empty)) [''out'', ''missing.tcia''] \<and>
   fst (download_from_manifest [''missing.tcia''] [''out''] 1 (offline_world Map.empty))
     = Inl ValueError \<and>
   is_dir (files (snd (download_from_manifest [''missing.tcia''] [''out''] 1
                          (offline_world Map.empty)))) [''out'', ''missing.tcia'']"
  by code_simp

text \<open>
  C1, amended: when the manifest path is not a regular file, \<open>download_from_manifest\<close>
  raises (the error of \<open>mkdir\<close>, else \<open>ValueError\<close>) before the manifest is copied or
  parsed and before any job is dispatched: nothing is printed or requested, and the file
  system is the one \<open>mkdir(parents=True, exist_ok=True)\<close> of the destination folder
  leaves, which keeps every existing entry and adds directories only.
\<close>

theorem invalid_manifest_fails_fast:
  assumes "\<not> is_file (files w) manifest_path"
  shows "download_from_manifest manifest_path output_base_path njobs w =
           (Inl (case fst (mkdir (joinpath output_base_path (path_name manifest_path)) (files w))
                 of Inl e \<Rightarrow> e | Inr u \<Rightarrow> ValueError),
            w\<lparr>files := snd (mkdir (joinpath output_base_path (path_name manifest_path))
                               (files w))\<rparr>) \<and>
         trace (snd (download_from_manifest manifest_path output_base_path njobs w)) = trace w \<and>
         (\<forall>q. lookup (files (snd (download_from_manifest manifest_path output_base_path njobs w))) q
                 = lookup (files w) q \<or>
              (lookup (files w) q = None \<and>
               lookup (files (snd (download_from_manifest manifest_path output_base_path njobs w))) q
                 = Some Dir))"
proof -
  let ?dest = "joinpath output_base_path (path_name manifest_path)"
  obtain r d where m: "mkdir ?dest (files w) = (r, d)" by (cases "mkdir ?dest (files w)")
  have nf: "\<not> is_file d manifest_path"
    using assms mkdir_keeps_files[OF m] by simp
  have run: "download_from_manifest manifest_path output_base_path njobs w =
           (Inl (case r of Inl e \<Rightarrow> e | Inr u \<Rightarrow> ValueError), w\<lparr>files := d\<rparr>)"
    using m nf by (cases r) (simp_all add: download_from_manifest_def)
  have "lookup d q = lookup (files w) q \<or> (lookup (files w) q = None \<and> lookup d q = Some Dir)"
    for q using mkdir_effect[OF m, of q] by blast
  then show ?thesis using run m by simp
qed

theorem invalid_manifest_fails_fast_witness:
  "\<not> is_file (files (offline_world [[''data''] \<mapsto> Dir])) [''data'', ''missing.tcia''] \<and>
   download_from_manifest [''data'', ''missing.tcia''] [''out''] 1
       (offline_world [[''data''] \<mapsto> Dir])
     = (Inl ValueError,
        (offline_world [[''data''] \<mapsto> Dir])
          \<lparr>files := snd (mkdir [''out'', ''missing.tcia''] [[''data''] \<mapsto> Dir])\<rparr>) \<and>
   trace (snd (download_from_manifest [''data'', ''missing.tcia''] [''out''] 1
       (offline_world [[''data''] \<mapsto> Dir]))) = []"
proof -
  let ?w = "offline_world [[''data''] \<mapsto> Dir]"
  have h: "\<not> is_file (files ?w) [''data'', ''missing.tcia'']" by code_simp
  have j: "joinpath [''out''] (path_name [''data'', ''missing.tcia'']) = [''out'', ''missing.tcia'']"
    by code_simp
  have f: "files ?w = [[''data''] \<mapsto> Dir]" by (simp add: offline_world_def)
  have k: "fst (mkdir [''out'', ''missing.tcia''] [[''data''] \<mapsto> Dir]) = Inr ()"
    by code_simp
  have t: "trace ?w = []" by (simp add: offline_world_def)
  from invalid_manifest_fails_fast[OF h, of "[''out'']" 1] h
  show ?thesis by (simp add: j f k t)
qed

section \<open>Properties of the orchestrator\<close>

lemma attempt_effect:
  assumes "attempt sid dest w = (r, w')"
  shows "remote w' = remote w \<and> (\<exists>new. trace w' = trace w @ new) \<and>
         (lookup (files w') q = lookup (files w) q \<or>
            (q = dest \<and> lookup (files w) q = None))"
  using assms
  by (auto simp: attempt_def requests_get_def open_wb_def Let_def exists_path_def lookup_def
           split: if_splits reply.splits sum.splits option.splits node.splits)

lemma loop_effect:
  "download_loop sid dest N rc w = (r, w') \<Longrightarrow>
     remote w' = remote w \<and> (\<exists>new. trace w' = trace w @ new) \<and>
     (lookup (files w') q = lookup (files w) q \<or>
        (q = dest \<and> lookup (files w) q = None))"
proof (induction sid dest N rc w arbitrary: r w' rule: download_loop.induct)
  case (1 sid dest N rc w)
  show ?case
  proof (cases "rc \<le> N")
    case False
    with "1.prems" show ?thesis by (simp add: loop_exhausted)
  next
    case True
    obtain r1 w1 where a: "attempt sid dest w = (r1, w1)" by (cases "attempt sid dest w")
    note e1 = attempt_effect[OF a, of q]
    show ?thesis
    proof (cases r1)
      case (Inr p)
      with a True "1.prems" have "w' = w1" by (simp add: loop_on_return)
      with e1 show ?thesis by simp
    next
      case (Inl e)
      with a have a': "attempt sid dest w = (Inl e, w1)" by simp
      show ?thesis
      proof (cases "N < rc + 1")
        case True
        with loop_on_failure[OF \<open>rc \<le> N\<close> a'] "1.prems"
        have "w' = emit (Print (FailedAfter sid N)) (emit (Print (ErrorDownloading sid e)) w1)"
          by simp
        with e1 show ?thesis by auto
      next
        case False
        let ?w2 = "emit (Sleep 1) (emit (Print (Retrying (rc + 1) N))
                     (emit (Print (ErrorDownloading sid e)) w1))"
        from loop_on_failure[OF \<open>rc \<le> N\<close> a'] False "1.prems"
        have l: "download_loop sid dest N (rc + 1) ?w2 = (r, w')" by simp
        have e2: "remote w' = remote ?w2 \<and> (\<exists>new. trace w' = trace ?w2 @ new) \<and>
           (lookup (files w') q = lookup (files ?w2) q \<or>
              (q = dest \<and> lookup (files ?w2) q = None))"
          using "1.IH"[OF \<open>rc \<le> N\<close> a'[symmetric] refl refl refl _ l] False by simp
        from e1 e2 show ?thesis by auto
      qed
    qed
  qed
qed

lemma loop_done:
  assumes "rc \<le> N"
  shows "exists_path (files (snd (download_loop sid dest N rc w))) dest \<or>
         Print (FailedAfter sid N) \<in> set (trace (snd (download_loop sid dest N rc w)))"
  using loop_absent_failed[OF assms, of sid dest w] last_in_set by metis

lemma loop_rejected_files:
  assumes "\<not> exists_path (files w) dest" and "\<forall>k. rejected (remote w sid k)"
  shows "files (snd (download_loop sid dest N rc w)) = files w"
proof (cases "rc \<le> N")
  case True
  from loop_all_rejected[OF True assms] show ?thesis by auto
next
  case False
  then show ?thesis by (simp add: loop_exhausted)
qed

lemma run_jobs_effect:
  "run_jobs dest N ids w = (rs, w') \<Longrightarrow>
     remote w' = remote w \<and> (\<exists>new. trace w' = trace w @ new) \<and>
     (lookup (files w) q \<noteq> None \<longrightarrow> lookup (files w') q = lookup (files w) q)"
proof (induction ids arbitrary: w rs w')
  case Nil
  then show ?case by simp
next
  case (Cons s rest)
  obtain r1 w1 where d: "download_loop s (joinpath dest (s @ ''.zip'')) N 0 w = (r1, w1)"
    by (cases "download_loop s (joinpath dest (s @ ''.zip'')) N 0 w")
  obtain rs2 w2 where j: "run_jobs dest N rest w1 = (rs2, w2)"
    by (cases "run_jobs dest N rest w1")
  from Cons.prems d j have w': "w' = w2" by (simp add: download_series_def)
  from loop_effect[OF d, of q] Cons.IH[OF j] w' show ?case by auto
qed

lemma run_jobs_done:
  "0 \<le> N \<Longrightarrow> run_jobs dest N ids w = (rs, w') \<Longrightarrow> sid \<in> set ids \<Longrightarrow>
     exists_path (files w') (joinpath dest (sid @ ''.zip'')) \<or>
     Print (FailedAfter sid N) \<in> set (trace w')"
proof (induction ids arbitrary: w rs w')
  case Nil
  then show ?case by simp
next
  case (Cons s rest)
  obtain r1 w1 where d: "download_loop s (joinpath dest (s @ ''.zip'')) N 0 w = (r1, w1)"
    by (cases "download_loop s (joinpath dest (s @ ''.zip'')) N 0 w")
  obtain rs2 w2 where j: "run_jobs dest N rest w1 = (rs2, w2)"
    by (cases "run_jobs dest N rest w1")
  from Cons.prems d j have w': "w' = w2" by (simp add: download_series_def)
  show ?case
  proof (cases "sid \<in> set rest")
    case True
    from Cons.IH[OF Cons.prems(1) j True] w' show ?thesis by simp
  next
    case False
    with Cons.prems(3) have "sid = s" by simp
    with loop_done[OF Cons.prems(1), of s "joinpath dest (s @ ''.zip'')" w] d
    have "exists_path (files w1) (joinpath dest (sid @ ''.zip'')) \<or>
          Print (FailedAfter sid N) \<in> set (trace w1)" by simp
    with run_jobs_effect[OF j, of "joinpath dest (sid @ ''.zip'')"]
         run_jobs_effect[OF j, of q] w' show ?thesis
      by (auto simp: exists_path_def)
  qed
qed

lemma run_jobs_absent:
  "\<not> exists_path (files w) q \<Longrightarrow>
   (\<forall>s \<in> set ids. joinpath dest (s @ ''.zip'') = q \<longrightarrow> (\<forall>k. rejected (remote w s k))) \<Longrightarrow>
   run_jobs dest N ids w = (rs, w') \<Longrightarrow> \<not> exists_path (files w') q"
proof (induction ids arbitrary: w rs w')
  case Nil
  then show ?case by simp
next
  case (Cons s rest)
  obtain r1 w1 where d: "download_loop s (joinpath dest (s @ ''.zip'')) N 0 w = (r1, w1)"
    by (cases "download_loop s (joinpath dest (s @ ''.zip'')) N 0 w")
  obtain rs2 w2 where j: "run_jobs dest N rest w1 = (rs2, w2)"
    by (cases "run_jobs dest N rest w1")
  from Cons.prems d j have w': "w' = w2" by (simp add: download_series_def)
  note e = loop_effect[OF d, of q]
  have q1: "\<not> exists_path (files w1) q"
  proof (cases "joinpath dest (s @ ''.zip'') = q")
    case True
    with Cons.prems(2) have "\<forall>k. rejected (remote w s k)" by simp
    with loop_rejected_files[of w q s N 0] Cons.prems(1) True d show ?thesis by simp
  next
    case False
    with e Cons.prems(1) show ?thesis by (auto simp: exists_path_def)
  qed
  have "\<forall>s \<in> set rest. joinpath dest (s @ ''.zip'') = q \<longrightarrow> (\<forall>k. rejected (remote w1 s k))"
    using Cons.prems(2) e by simp
  from Cons.IH[OF q1 this j] w' show ?case by simp
qed

lemma split_on_absent: "sep \<notin> set s \<Longrightarrow> split_on sep acc s = [acc @ s]"
  by (induction s arbitrary: acc) auto

lemma joinpath_plain_name:
  assumes "CHR ''/'' \<notin> set sid"
  shows "joinpath dest (sid @ ''.zip'') = dest @ [sid @ ''.zip'']"
proof -
  have n: "CHR ''/'' \<notin> set (sid @ ''.zip'')" using assms by simp
  have "sid @ ''.zip'' \<noteq> ''.''"
    by (metis length_append length_Cons list.size(3) add_Suc_right Suc_inject
              nat.distinct(1) add_is_0)
  then have "path_parts (sid @ ''.zip'') = [sid @ ''.zip'']"
    using split_on_absent[OF n, of "[]"] by (simp add: path_parts_def)
  then show ?thesis using n
    by (cases "sid @ ''.zip''") (auto simp: joinpath_def)
qed

lemma completed_run_steps:
  assumes content: "lookup (files w) manifest_path = Some (File c)"
    and parsed: "parse_manifest_text c = Inr m"
    and retries: "no_of_retries_of m = Inr N"
    and dest: "dest = joinpath output_base_path (path_name manifest_path)"
    and run: "download_from_manifest manifest_path output_base_path njobs w = (Inr (), w')"
  shows "\<exists>d0 rs w3.
           mkdir dest (files w) = (Inr (), d0) \<and>
           manifest_path \<noteq> dest @ [path_name manifest_path] \<and>
           run_jobs dest N (get_list m ''ListOfSeriesToDownload'')
             (emit (Print (DownloadingSeries (length (get_list m ''ListOfSeriesToDownload'')) dest))
               (emit (Print (ParsingManifest manifest_path))
                 (w\<lparr>files := d0(dest @ [path_name manifest_path] \<mapsto> File c)\<rparr>))) = (rs, w3) \<and>
           w' = emit (Print Done) w3"
proof -
  obtain r0 d0 where mk: "mkdir dest (files w) = (r0, d0)" by (cases "mkdir dest (files w)")
  have r0: "r0 = Inr ()"
    using run mk dest by (cases r0) (simp_all add: download_from_manifest_def)
  have l0: "lookup d0 manifest_path = Some (File c)"
    using mkdir_effect[OF mk, of manifest_path] content by auto
  then have isf: "is_file d0 manifest_path" by (simp add: is_file_def)
  have dir0: "is_dir d0 dest" using mkdir_success mk r0 by simp
  obtain r1 d1 where cp: "shutil_copy manifest_path dest d0 = (r1, d1)"
    by (cases "shutil_copy manifest_path dest d0")
  have r1: "r1 = Inr ()"
    using run mk r0 isf cp dest by (cases r1) (simp_all add: download_from_manifest_def)
  from shutil_copy_into_dir[OF cp[unfolded r1] dir0 l0]
  have d1: "d1 = d0(dest @ [path_name manifest_path] \<mapsto> File c)"
    and ne: "manifest_path \<noteq> dest @ [path_name manifest_path]" by simp_all
  have "lookup d1 manifest_path = Some (File c)"
    using l0 d1 ne by (auto simp: lookup_def split: if_splits)
  then have pm: "parse_manifest manifest_path d1 = Inr m"
    using parsed by (simp add: parse_manifest_def)
  let ?ids = "get_list m ''ListOfSeriesToDownload''"
  let ?w2 = "emit (Print (DownloadingSeries (length ?ids) dest))
               (emit (Print (ParsingManifest manifest_path)) (w\<lparr>files := d1\<rparr>))"
  obtain rs w3 where rj: "run_jobs dest N ?ids ?w2 = (rs, w3)"
    by (cases "run_jobs dest N ?ids ?w2")
  have "w' = emit (Print Done) w3"
    using run mk r0 isf cp r1 pm retries rj dest
    by (auto simp: download_from_manifest_def Let_def split: if_splits sum.splits)
  with mk r0 ne rj d1 show ?thesis by blast
qed

text \<open>
  C8, as stated, fails in "exactly when": a file can be at a job's destination although the
  download of that series failed. With \<open>noOfrRetry=0\<close> and a response whose stream breaks
  after the file was opened, the run completes, the series is reported as failed, and the
  partial file \<open>1.2.zip\<close> is in the destination folder.
\<close>

theorem partial_file_after_failed_job_counterexample:
  "fst (download_from_manifest [''m''] [''out''] 1
          (serving_world [[''m''] \<mapsto> File ''ListOfSeriesToDownload=\<newline>1.2\<newline>noOfrRetry=0'']
             (Reply 200 zip_header [''PK''] True))) = Inr () \<and>
   Print (FailedAfter ''1.2'' 0) \<in> set (trace (snd (download_from_manifest [''m''] [''out''] 1
          (serving_world [[''m''] \<mapsto> File ''ListOfSeriesToDownload=\<newline>1.2\<newline>noOfrRetry=0'']
             (Reply 200 zip_header [''PK''] True))))) \<and>
   lookup (files (snd (download_from_manifest [''m''] [''out''] 1
          (serving_world [[''m''] \<mapsto> File ''ListOfSeriesToDownload=\<newline>1.2\<newline>noOfrRetry=0'']
             (Reply 200 zip_header [''PK''] True))))) [''out'', ''m'', ''1.2.zip'']
     = Some (File ''PK'')"
  by code_simp

text \<open>
  C8, amended: after a run of the orchestrator that completes on a manifest file with
  content \<open>c\<close>, parsed as \<open>m\<close> with retry count \<open>N\<close>, the destination folder
  \<open>dest = output_root/manifest_name\<close> is a directory and \<open>dest/manifest_name\<close> is a file
  with content \<open>c\<close>. Each series identifier \<open>sid\<close> of the list has the job destination
  \<open>dest / (sid + ".zip")\<close>, which is \<open>dest/sid.zip\<close> when \<open>sid\<close> has no slash; with
  \<open>N \<ge> 0\<close> and no "Failed to download" line for \<open>sid\<close>, something is at that path;
  and nothing is at that path when nothing was there before the run, the path is below
  \<open>dest\<close> and is not the manifest's copy, and every reply for every series of the list
  with that destination is rejected before the file is opened. (A job that fails while
  streaming leaves its partial file.)
\<close>

theorem completed_run_layout:
  assumes content: "lookup (files w) manifest_path = Some (File c)"
    and parsed: "parse_manifest_text c = Inr m"
    and retries: "no_of_retries_of m = Inr N"
    and dest: "dest = joinpath output_base_path (path_name manifest_path)"
    and run: "download_from_manifest manifest_path output_base_path njobs w = (Inr (), w')"
  shows "is_dir (files w') dest \<and>
         lookup (files w') (dest @ [path_name manifest_path]) = Some (File c) \<and>
         (\<forall>sid \<in> set (get_list m ''ListOfSeriesToDownload'').
            (CHR ''/'' \<notin> set sid \<longrightarrow> joinpath dest (sid @ ''.zip'') = dest @ [sid @ ''.zip'']) \<and>
            (0 \<le> N \<and> Print (FailedAfter sid N) \<notin> set (trace w') \<longrightarrow>
               exists_path (files w') (joinpath dest (sid @ ''.zip''))) \<and>
            (\<not> exists_path (files w) (joinpath dest (sid @ ''.zip'')) \<and>
             length dest < length (joinpath dest (sid @ ''.zip'')) \<and>
             joinpath dest (sid @ ''.zip'') \<noteq> dest @ [path_name manifest_path] \<and>
             (\<forall>s \<in> set (get_list m ''ListOfSeriesToDownload'').
                joinpath dest (s @ ''.zip'') = joinpath dest (sid @ ''.zip'') \<longrightarrow>
                (\<forall>k. rejected (remote w s k))) \<longrightarrow>
               \<not> exists_path (files w') (joinpath dest (sid @ ''.zip''))))"
proof -
  let ?ids = "get_list m ''ListOfSeriesToDownload''"
  let ?copy = "dest @ [path_name manifest_path]"
  from completed_run_steps[OF content parsed retries dest run]
  obtain d0 rs w3 where mk: "mkdir dest (files w) = (Inr (), d0)"
    and ne: "manifest_path \<noteq> ?copy"
    and rj: "run_jobs dest N ?ids
               (emit (Print (DownloadingSeries (length ?ids) dest))
                 (emit (Print (ParsingManifest manifest_path))
                   (w\<lparr>files := d0(?copy \<mapsto> File c)\<rparr>))) = (rs, w3)"
    and w': "w' = emit (Print Done) w3" by blast
  let ?w2 = "emit (Print (DownloadingSeries (length ?ids) dest))
               (emit (Print (ParsingManifest manifest_path)) (w\<lparr>files := d0(?copy \<mapsto> File c)\<rparr>))"
  have f2: "files ?w2 = d0(?copy \<mapsto> File c)" by simp
  have r2: "remote ?w2 = remote w" by simp
  have dir2: "lookup (files ?w2) dest = Some Dir"
    using mkdir_success[OF mk] by (auto simp: is_dir_def lookup_def)
  have copy2: "lookup (files ?w2) ?copy = Some (File c)"
    by (simp add: lookup_def)
  have a: "is_dir (files w') dest"
    using run_jobs_effect[OF rj, of dest] dir2 w' by (simp add: is_dir_def)
  have b: "lookup (files w') ?copy = Some (File c)"
    using run_jobs_effect[OF rj, of ?copy] copy2 w' by simp
  have c: "0 \<le> N \<and> Print (FailedAfter sid N) \<notin> set (trace w') \<longrightarrow>
             exists_path (files w') (joinpath dest (sid @ ''.zip''))"
    if "sid \<in> set ?ids" for sid
  proof (intro impI, elim conjE)
    assume n: "0 \<le> N" and nf: "Print (FailedAfter sid N) \<notin> set (trace w')"
    from run_jobs_done[OF n rj that] nf w'
    show "exists_path (files w') (joinpath dest (sid @ ''.zip''))" by auto
  qed
  have d: "\<not> exists_path (files w') q"
    if fresh: "\<not> exists_path (files w) q" and below: "length dest < length q"
      and other: "q \<noteq> ?copy"
      and rej: "\<forall>s \<in> set ?ids. joinpath dest (s @ ''.zip'') = q \<longrightarrow> (\<forall>k. rejected (remote w s k))"
    for q
  proof -
    have "lookup d0 q = lookup (files w) q"
      using mkdir_effect[OF mk, of q] below by auto
    then have "\<not> exists_path (files ?w2) q"
      using fresh other by (auto simp: exists_path_def lookup_def split: if_splits)
    moreover have "\<forall>s \<in> set ?ids. joinpath dest (s @ ''.zip'') = q \<longrightarrow>
                     (\<forall>k. rejected (remote ?w2 s k))"
      using rej by simp
    ultimately have "\<not> exists_path (files w3) q" using rj by (rule run_jobs_absent)
    then show ?thesis using w' by simp
  qed
  show ?thesis
    using a b c d joinpath_plain_name by blast
qed

theorem completed_run_layout_witness:
  "lookup (files (tag_world [[''m''] \<mapsto> File two_series_manifest] ''1.2''
                    (Reply 200 zip_header [''PK''] False))) [''m'']
     = Some (File two_series_manifest) \<and>
   fst (download_from_manifest [''m''] [''out''] 2
          (tag_world [[''m''] \<mapsto> File two_series_manifest] ''1.2''
             (Reply 200 zip_header [''PK''] False))) = Inr () \<and>
   is_dir (files (snd (download_from_manifest [''m''] [''out''] 2
          (tag_world [[''m''] \<mapsto> File two_series_manifest] ''1.2''
             (Reply 200 zip_header [''PK''] False))))) [''out'', ''m''] \<and>
   lookup (files (snd (download_from_manifest [''m''] [''out''] 2
          (tag_world [[''m''] \<mapsto> File two_series_manifest] ''1.2''
             (Reply 200 zip_header [''PK''] False))))) [''out'', ''m'', ''m'']
     = Some (File two_series_manifest) \<and>
   Print (FailedAfter ''1.2'' 1) \<notin> set (trace (snd (download_from_manifest [''m''] [''out''] 2
          (tag_world [[''m''] \<mapsto> File two_series_manifest] ''1.2''
             (Reply 200 zip_header [''PK''] False))))) \<and>
   exists_path (files (snd (download_from_manifest [''m''] [''out''] 2
          (tag_world [[''m''] \<mapsto> File two_series_manifest] ''1.2''
             (Reply 200 zip_header [''PK''] False))))) [''out'', ''m'', ''1.2.zip''] \<and>
   (\<forall>k. rejected (remote (tag_world [[''m''] \<mapsto> File two_series_manifest] ''1.2''
                             (Reply 200 zip_header [''PK''] False)) ''3.4'' k)) \<and>
   \<not> exists_path (files (snd (download_from_manifest [''m''] [''out''] 2
          (tag_world [[''m''] \<mapsto> File two_series_manifest] ''1.2''
             (Reply 200 zip_header [''PK''] False))))) [''out'', ''m'', ''3.4.zip'']"
proof -
  let ?W = "tag_world [[''m''] \<mapsto> File two_series_manifest] ''1.2''
              (Reply 200 zip_header [''PK''] False)"
  let ?M = "[''ListOfSeriesToDownload'' \<mapsto> [''1.2'', ''3.4''], ''noOfrRetry'' \<mapsto> [''1'']]"
  let ?run = "download_from_manifest [''m''] [''out''] 2 ?W"
  have content: "lookup (files ?W) [''m''] = Some (File two_series_manifest)"
    by (simp add: tag_world_def lookup_def)
  have parsed: "parse_manifest_text two_series_manifest = Inr ?M"
    by (simp add: two_series_manifest_def parser_defs)
  have retries: "no_of_retries_of ?M = Inr 1"
    by (simp add: no_of_retries_of_def py_int_def digit_of_def strip_def is_space_def)
  have dest: "[''out'', ''m''] = joinpath [''out''] (path_name [''m''])"
    by code_simp
  have "fst ?run = Inr ()" by code_simp
  then have run: "?run = (Inr (), snd ?run)" by (metis prod.collapse)
  have ids: "get_list ?M ''ListOfSeriesToDownload'' = [''1.2'', ''3.4'']"
    by (simp add: get_list_def)
  have j1: "joinpath [''out'', ''m''] ''1.2.zip'' = [''out'', ''m'', ''1.2.zip'']"
    by code_simp
  have j2: "joinpath [''out'', ''m''] ''3.4.zip'' = [''out'', ''m'', ''3.4.zip'']"
    by code_simp
  have ok: "Print (FailedAfter ''1.2'' 1) \<notin> set (trace (snd ?run))" by code_simp
  have fresh: "\<not> exists_path (files ?W) [''out'', ''m'', ''3.4.zip'']" by code_simp
  have n: "path_name [''m''] = ''m''" by code_simp
  have rej: "\<forall>k. rejected (remote ?W ''3.4'' k)"
    by (simp add: tag_world_def rejected_def)
  note inst = completed_run_layout[OF content parsed retries dest run, unfolded ids]
  from inst have a: "is_dir (files (snd ?run)) [''out'', ''m'']"
    and b: "lookup (files (snd ?run)) ([''out'', ''m''] @ [path_name [''m'']])
              = Some (File two_series_manifest)"
    by blast+
  from inst ok have c: "exists_path (files (snd ?run)) [''out'', ''m'', ''1.2.zip'']"
    by (simp add: j1)
  from inst fresh rej have d: "\<not> exists_path (files (snd ?run)) [''out'', ''m'', ''3.4.zip'']"
    by (simp add: j1 j2 n)
  from content \<open>fst ?run = Inr ()\<close> a b c d ok rej show ?thesis by (simp add: n)
qed

lemma no_of_retries_absent:
  "manifest_data ''noOfrRetry'' = None \<Longrightarrow> no_of_retries_of manifest_data = Inl TypeError"
  by (simp add: no_of_retries_of_def)

text \<open>
  C2: the code does not do what the claim says. On a manifest without the line
  \<open>noOfrRetry=...\<close>, \<open>manifest_data.get('noOfrRetry', 0)[0]\<close> subscripts the default
  \<open>0\<close> and raises \<open>TypeError\<close>: the run ends after the copy of the manifest, before any
  request. The same manifest with \<open>noOfrRetry=0\<close> completes and requests the series.
\<close>

theorem missing_retry_count_raises:
  "parse_manifest_text ''ListOfSeriesToDownload=\<newline>1.2''
     = Inr [''ListOfSeriesToDownload'' \<mapsto> [''1.2'']] \<and>
   no_of_retries_of [''ListOfSeriesToDownload'' \<mapsto> [''1.2'']] = Inl TypeError \<and>
   fst (download_from_manifest [''m''] [''out''] 1
          (serving_world [[''m''] \<mapsto> File ''ListOfSeriesToDownload=\<newline>1.2'']
             (Reply 200 zip_header [''PK''] False))) = Inl TypeError \<and>
   actions (trace (snd (download_from_manifest [''m''] [''out''] 1
          (serving_world [[''m''] \<mapsto> File ''ListOfSeriesToDownload=\<newline>1.2'']
             (Reply 200 zip_header [''PK''] False))))) = [] \<and>
   fst (download_from_manifest [''m''] [''out''] 1
          (serving_world [[''m''] \<mapsto> File ''ListOfSeriesToDownload=\<newline>1.2\<newline>noOfrRetry=0'']
             (Reply 200 zip_header [''PK''] False))) = Inr () \<and>
   actions (trace (snd (download_from_manifest [''m''] [''out''] 1
          (serving_world [[''m''] \<mapsto> File ''ListOfSeriesToDownload=\<newline>1.2\<newline>noOfrRetry=0'']
             (Reply 200 zip_header [''PK''] False))))) = [Request ''1.2'']"
proof -
  have "parse_manifest_text ''ListOfSeriesToDownload=\<newline>1.2''
          = Inr [''ListOfSeriesToDownload'' \<mapsto> [''1.2'']]"
    by (simp add: parser_defs)
  moreover have "no_of_retries_of [''ListOfSeriesToDownload'' \<mapsto> [''1.2'']] = Inl TypeError"
    by (simp add: no_of_retries_absent)
  moreover have "fst (download_from_manifest [''m''] [''out''] 1
          (serving_world [[''m''] \<mapsto> File ''ListOfSeriesToDownload=\<newline>1.2'']
             (Reply 200 zip_header [''PK''] False))) = Inl TypeError"
    by code_simp
  moreover have "actions (trace (snd (download_from_manifest [''m''] [''out''] 1
          (serving_world [[''m''] \<mapsto> File ''ListOfSeriesToDownload=\<newline>1.2'']
             (Reply 200 zip_header [''PK''] False))))) = []"
    by code_simp
  moreover have "fst (download_from_manifest [''m''] [''out''] 1
          (serving_world [[''m''] \<mapsto> File ''ListOfSeriesToDownload=\<newline>1.2\<newline>noOfrRetry=0'']
             (Reply 200 zip_header [''PK''] False))) = Inr ()"
    by code_simp
  moreover have "actions (trace (snd (download_from_manifest [''m''] [''out''] 1
          (serving_world [[''m''] \<mapsto> File ''ListOfSeriesToDownload=\<newline>1.2\<newline>noOfrRetry=0'']
             (Reply 200 zip_header [''PK''] False))))) = [Request ''1.2'']"
    by code_simp
  ultimately show ?thesis by simp
qed

end
